theory Spec2Isabelle
  imports Complex_Main
begin

section \<open>Python values used by the models\<close>

text \<open>
  A Python \<open>str\<close> is a sequence of Unicode code points, so it is modelled as a list of
  code point numbers. The Cyrillic literals of the source are written out by code point;
  ASCII literals are converted from HOL strings by \<open>ascii\<close>.
\<close>

type_synonym ustr = "nat list"

definition ascii :: "string \<Rightarrow> ustr" where
  "ascii s = map of_char s"

text \<open>\<open>str(n)\<close> for a non-negative integer: its decimal digits, most significant first.\<close>

function nat_digits :: "nat \<Rightarrow> ustr" where
  "nat_digits n = (if n < 10 then [48 + n] else nat_digits (n div 10) @ [48 + n mod 10])"
  by pat_completeness auto
termination
  by (relation "measure id") auto

declare nat_digits.simps [simp del]

text \<open>\<open>str(n)\<close> (and \<open>f'{n}'\<close>) for a Python \<open>int\<close>: a minus sign (code point 45) before
  the digits of a negative number.\<close>

definition str_int :: "int \<Rightarrow> ustr" where
  "str_int n = (if n < 0 then 45 # nat_digits (nat (- n)) else nat_digits (nat n))"

text \<open>The exceptions the modelled code can raise.\<close>

datatype error =
    IndexError
  | ObjectDoesNotExist
  | MultipleObjectsReturned
  | InvalidOperation
  | DivisionByZero
  | OverflowError
  | IntegrityError

text \<open>\<open>xs[p]\<close> for an index \<open>p \<ge> 0\<close>: Python raises IndexError out of range.\<close>

definition list_index :: "'a list \<Rightarrow> nat \<Rightarrow> error + 'a" where
  "list_index xs p = (if p < length xs then Inr (xs ! p) else Inl IndexError)"

text \<open>
  A finite \<open>decimal.Decimal\<close>: the value is \<open>dint * 10 ^ dexp\<close>. The sign is folded into
  the coefficient (so negative zero is not distinguished); NaN and the infinities are left
  out, since a \<open>DecimalField\<close> never holds them.
\<close>

record dec =
  dint :: int
  dexp :: int

text \<open>\<open>Decimal(n)\<close> for an \<open>int\<close>, and the rational number a decimal stands for.\<close>

definition Decimal :: "int \<Rightarrow> dec" where
  "Decimal n = \<lparr>dint = n, dexp = 0\<rparr>"

definition dec_value :: "dec \<Rightarrow> rat" where
  "dec_value d = of_int (dint d) * 10 powi dexp d"

text \<open>
  Arithmetic is that of the default context: precision 28, rounding \<open>ROUND_HALF_EVEN\<close>,
  \<open>InvalidOperation\<close> and \<open>DivisionByZero\<close> trapped. The exponent limits of the context
  (\<open>Emax = 999999\<close>, \<open>Emin = -999999\<close>) are left out: the exponents of the fields are
  -1 and -2, and the operations below keep the exponents far inside these limits.
\<close>

definition prec :: nat where
  "prec = 28"

text \<open>\<open>len(str(n))\<close>, the number of decimal digits of a coefficient.\<close>

function ndigits :: "nat \<Rightarrow> nat" where
  "ndigits n = (if n < 10 then 1 else Suc (ndigits (n div 10)))"
  by pat_completeness auto
termination
  by (relation "measure id") auto

declare ndigits.simps [simp del]

text \<open>A coefficient without its last \<open>k\<close> digits, rounded half-even on the digits
  dropped.\<close>

definition round_half_even :: "nat \<Rightarrow> nat \<Rightarrow> nat" where
  "round_half_even c k =
     (let m = 10 ^ k; q = c div m; r = c mod m
      in if 2 * r < m then q
         else if 2 * r > m then q + 1
         else if even q then q else q + 1)"

text \<open>\<open>Decimal._fix\<close>: a coefficient of more than \<open>prec\<close> digits is rounded to \<open>prec\<close>
  digits; when the rounding carries into one more digit, the last digit (a zero) is
  dropped.\<close>

definition dec_fix :: "dec \<Rightarrow> dec" where
  "dec_fix d =
     (let n = ndigits (nat \<bar>dint d\<bar>) in
      if n > prec then
        (let k = n - prec; c = round_half_even (nat \<bar>dint d\<bar>) k in
         if ndigits c > prec
         then \<lparr>dint = sgn (dint d) * int (c div 10), dexp = dexp d + int k + 1\<rparr>
         else \<lparr>dint = sgn (dint d) * int c, dexp = dexp d + int k\<rparr>)
      else d)"

text \<open>\<open>a * b\<close>, \<open>a + b\<close>, \<open>a - b\<close>: the exact result (for a sum at the smaller
  exponent), then \<open>_fix\<close>. The shortcuts of \<open>Decimal.__add__\<close> for a zero operand and
  for operands far apart give the same coefficient and exponent after \<open>_fix\<close>.\<close>

definition dec_mul :: "dec \<Rightarrow> dec \<Rightarrow> dec" where
  "dec_mul a b = dec_fix \<lparr>dint = dint a * dint b, dexp = dexp a + dexp b\<rparr>"

definition dec_add :: "dec \<Rightarrow> dec \<Rightarrow> dec" where
  "dec_add a b =
     (let e = min (dexp a) (dexp b)
      in dec_fix \<lparr>dint = dint a * 10 ^ nat (dexp a - e) + dint b * 10 ^ nat (dexp b - e),
                  dexp = e\<rparr>)"

definition dec_sub :: "dec \<Rightarrow> dec \<Rightarrow> dec" where
  "dec_sub a b = dec_add a (b\<lparr>dint := - dint b\<rparr>)"

text \<open>\<open>Decimal._rescale\<close> to the exponent \<open>e\<close>: zeros appended, or digits rounded
  away.\<close>

definition dec_rescale :: "dec \<Rightarrow> int \<Rightarrow> dec" where
  "dec_rescale d e =
     (if dint d = 0 then \<lparr>dint = 0, dexp = e\<rparr>
      else if dexp d \<ge> e then \<lparr>dint = dint d * 10 ^ nat (dexp d - e), dexp = e\<rparr>
      else \<lparr>dint = sgn (dint d) * int (round_half_even (nat \<bar>dint d\<bar>) (nat (e - dexp d))),
            dexp = e\<rparr>)"

text \<open>\<open>round(d, n)\<close> on a Decimal is \<open>d.quantize(Decimal('1E-n'))\<close>: it raises
  \<open>InvalidOperation\<close> when the result would have more than \<open>prec\<close> digits.\<close>

definition dec_round :: "dec \<Rightarrow> int \<Rightarrow> error + dec" where
  "dec_round d n =
     (let e = - n in
      if dint d = 0 then Inr \<lparr>dint = 0, dexp = e\<rparr>
      else if int (ndigits (nat \<bar>dint d\<bar>)) + dexp d - 1 - e + 1 > int prec then Inl InvalidOperation
      else (let ans = dec_rescale d e in
            if ndigits (nat \<bar>dint ans\<bar>) > prec then Inl InvalidOperation else Inr ans))"

text \<open>The loop of \<open>Decimal.__truediv__\<close> that removes trailing zeros of an exact
  quotient while the exponent is below the ideal one.\<close>

function strip_zeros :: "nat \<Rightarrow> int \<Rightarrow> int \<Rightarrow> nat \<times> int" where
  "strip_zeros coeff e ideal_exp =
     (if e < ideal_exp \<and> coeff mod 10 = 0
      then strip_zeros (coeff div 10) (e + 1) ideal_exp
      else (coeff, e))"
  by pat_completeness auto
termination
  by (relation "measure (\<lambda>(coeff, e, ideal_exp). nat (ideal_exp - e))") auto

declare strip_zeros.simps [simp del]

text \<open>\<open>a / b\<close> (\<open>Decimal.__truediv__\<close>): \<open>0 / 0\<close> raises \<open>InvalidOperation\<close>, \<open>a / 0\<close>
  raises \<open>DivisionByZero\<close>; otherwise the quotient is computed to \<open>prec + 1\<close> digits at
  least, with a sticky last digit when it is inexact, and then \<open>_fix\<close> rounds it.\<close>

definition dec_truediv :: "dec \<Rightarrow> dec \<Rightarrow> error + dec" where
  "dec_truediv a b =
     (if dint b = 0 then (if dint a = 0 then Inl InvalidOperation else Inl DivisionByZero)
      else if dint a = 0 then Inr (dec_fix \<lparr>dint = 0, dexp = dexp a - dexp b\<rparr>)
      else
        (let op1 = nat \<bar>dint a\<bar>; op2 = nat \<bar>dint b\<bar>;
             shift = int (ndigits op2) - int (ndigits op1) + int prec + 1;
             e = dexp a - dexp b - shift;
             coeff = (if shift \<ge> 0 then (op1 * 10 ^ nat shift) div op2
                      else op1 div (op2 * 10 ^ nat (- shift)));
             remainder = (if shift \<ge> 0 then (op1 * 10 ^ nat shift) mod op2
                          else op1 mod (op2 * 10 ^ nat (- shift)));
             (coeff', e') =
                (if remainder \<noteq> 0 then (if coeff mod 5 = 0 then coeff + 1 else coeff, e)
                 else strip_zeros coeff e (dexp a - dexp b))
         in Inr (dec_fix \<lparr>dint = sgn (dint a) * sgn (dint b) * int coeff', dexp = e'\<rparr>)))"

text \<open>A Python number that is an \<open>int\<close> or a \<open>Decimal\<close>: \<open>sum\<close> starts from the
  \<open>int\<close> 0, and an \<open>int\<close> operand of a Decimal operation is converted by \<open>Decimal\<close>.
  \<open>round(n, 2)\<close> on an \<open>int\<close> is \<open>n\<close>.\<close>

datatype pynum = PyInt int | PyDec dec

fun to_dec :: "pynum \<Rightarrow> dec" where
  "to_dec (PyInt n) = Decimal n"
| "to_dec (PyDec d) = d"

fun py_add :: "pynum \<Rightarrow> pynum \<Rightarrow> pynum" where
  "py_add (PyInt m) (PyInt n) = PyInt (m + n)"
| "py_add x y = PyDec (dec_add (to_dec x) (to_dec y))"

definition py_sum :: "pynum list \<Rightarrow> pynum" where
  "py_sum xs = foldl py_add (PyInt 0) xs"

fun py_round :: "pynum \<Rightarrow> int \<Rightarrow> error + pynum" where
  "py_round (PyInt n) k = Inr (PyInt n)"
| "py_round (PyDec d) k = (case dec_round d k of Inl e \<Rightarrow> Inl e | Inr r \<Rightarrow> Inr (PyDec r))"

text \<open>A \<open>datetime.date\<close> is represented by its proleptic Gregorian ordinal
  (\<open>date.toordinal()\<close>); \<open>(a - b).days\<close> is the difference of the ordinals.\<close>

type_synonym date = int

section \<open>The data model (apps/company/models.py, apps/main/models.py)\<close>

record user =
  user_id :: nat
  username :: ustr
  email :: ustr

record company =
  company_id :: nat
  company_name :: ustr
  company_info :: ustr

record worker_profile =
  worker_id :: nat
  worker_user :: user
  worker_company :: company
  position :: ustr

record country =
  country_id :: nat
  country_name :: ustr

record city =
  city_id :: nat
  city_name :: ustr
  city_country :: country

record warehouse =
  warehouse_id :: nat
  address :: ustr
  warehouse_company :: company
  warehouse_city :: city

record order =
  order_id :: nat
  order_user :: user
  order_departure_city :: city
  order_arrival_city :: city
  sender_fullname :: ustr
  recipient_fullname :: ustr
  direct_take :: bool
  direct_take_address :: ustr
  direct_deliver :: bool
  direct_deliver_address :: ustr
  order_departure_date :: date
  cargo_type :: ustr
  cargo_len :: dec
  cargo_width :: dec
  cargo_depth :: dec
  cargo_weight :: dec
  insurance_price :: dec
  additional_info :: ustr

record transport =
  transport_id :: nat
  transport_type :: ustr
  number :: ustr
  transport_company :: company

record sending =
  sending_id :: nat
  sending_company :: company
  departure_warehouse :: warehouse
  departure_date :: date
  arrival_warehouse :: warehouse
  arrival_date :: date
  total_volume :: dec
  sending_transport :: transport
  orders :: "order list"
  price_for_m3 :: dec

record application =
  application_id :: nat
  application_order :: order
  application_sending :: sending
  status :: ustr
  info :: ustr

section \<open>Order.cargo_volume and Sending.free_volume\<close>

definition cargo_volume :: "order \<Rightarrow> error + dec" where
  "cargo_volume self =
     (case dec_round (dec_mul (dec_mul (cargo_len self) (cargo_width self)) (cargo_depth self)) 2 of
        Inl e \<Rightarrow> Inl e
      | Inr r \<Rightarrow> dec_truediv r (Decimal 1000000))"

text \<open>The list comprehension \<open>[order.cargo_volume for order in ...]\<close>: the first
  exception ends it.\<close>

fun cargo_volumes :: "order list \<Rightarrow> error + dec list" where
  "cargo_volumes [] = Inr []"
| "cargo_volumes (order # rest) =
     (case cargo_volume order of
        Inl e \<Rightarrow> Inl e
      | Inr v \<Rightarrow> (case cargo_volumes rest of Inl e \<Rightarrow> Inl e | Inr vs \<Rightarrow> Inr (v # vs)))"

text \<open>\<open>self.orders\<close> is the many-to-many field \<open>orders\<close> of the Sending.\<close>

definition free_volume :: "sending \<Rightarrow> error + dec" where
  "free_volume self =
     (case cargo_volumes (orders self) of
        Inl e \<Rightarrow> Inl e
      | Inr vs \<Rightarrow>
         (let summ = py_sum (map PyDec vs) in
          case py_round summ 2 of
            Inl e \<Rightarrow> Inl e
          | Inr r \<Rightarrow> Inr (dec_sub (total_volume self) (to_dec r))))"

section \<open>Sending.days\<close>

text \<open>The three plural forms of the word "day" in \<open>days_list\<close>, by code point:
  nominative singular, genitive singular, genitive plural.\<close>

definition days_list :: "ustr list" where
  "days_list = [[1076, 1077, 1085, 1100], [1076, 1085, 1103], [1076, 1085, 1077, 1081]]"

text \<open>Python's \<open>%\<close> with a positive modulus is the floored remainder, which is \<open>mod\<close>
  on \<open>int\<close>.\<close>

definition days :: "sending \<Rightarrow> error + ustr" where
  "days self =
     (let num_days = arrival_date self - departure_date self;
          p = (if num_days mod 10 = 1 \<and> num_days mod 100 \<noteq> 11 then 0
               else if 2 \<le> num_days mod 10 \<and> num_days mod 10 \<le> 4 \<and>
                       (num_days mod 100 < 10 \<or> num_days mod 100 \<ge> 20) then 1
               else 2)
      in case list_index days_list p of
           Inl e \<Rightarrow> Inl e
         | Inr w \<Rightarrow> Inr (str_int num_days @ [32] @ w))"

section \<open>The store, the settings and the task queue\<close>

text \<open>
  The tables the signal handlers query. A row is the model instance with the objects its
  foreign keys point to held by value; the queries compare primary keys, as the SQL that
  the ORM generates does.
\<close>

record store =
  Order_objects :: "order list"
  Sending_objects :: "sending list"
  Application_objects :: "application list"
  WorkerProfile_objects :: "worker_profile list"

text \<open>The values of a template context, and the context (a dict literal, in order).\<close>

datatype ctx_value =
    Str ustr
  | Order_obj order
  | Sending_obj sending
  | Application_obj application

type_synonym template_context = "(ustr \<times> ctx_value) list"

text \<open>
  What the handlers take from their surroundings: the two settings, and the template
  renderer and tag stripper of Django, which are parameters here.
\<close>

record env =
  SITE_URL :: ustr
  DEFAULT_FROM_EMAIL :: ustr
  render_to_string :: "ustr \<Rightarrow> template_context \<Rightarrow> ustr"
  strip_tags :: "ustr \<Rightarrow> ustr"

text \<open>
  A call of \<open>send_email_celery.delay\<close> or \<open>send_many_email_celery.delay\<close> with its
  arguments (subject, plain message, sender, recipient or recipients, HTML message). A
  handler takes the queue of tasks enqueued so far and returns it extended, with
  \<open>Inr ()\<close> when it returns and \<open>Inl e\<close> when it raises \<open>e\<close>.
\<close>

datatype task =
    send_email_celery ustr ustr ustr ustr ustr
  | send_many_email_celery ustr ustr ustr "ustr list" ustr

type_synonym handler_result = "(error + unit) \<times> task list"

text \<open>\<open>QuerySet.get\<close> on the rows a query selects.\<close>

definition queryset_get :: "'a list \<Rightarrow> error + 'a" where
  "queryset_get rows =
     (case rows of
        [] \<Rightarrow> Inl ObjectDoesNotExist
      | [x] \<Rightarrow> Inr x
      | _ \<Rightarrow> Inl MultipleObjectsReturned)"

text \<open>\<open>order.application\<close>, the reverse accessor of the one-to-one field
  \<open>Application.order\<close>: the application whose order is this one.\<close>

definition order_application :: "store \<Rightarrow> order \<Rightarrow> error + application" where
  "order_application db order =
     queryset_get [a \<leftarrow> Application_objects db. order_id (application_order a) = order_id order]"

text \<open>\<open>Order.objects.get(application=instance)\<close> and
  \<open>Sending.objects.get(application=instance)\<close>: a join with the application table on the
  foreign key, restricted to the row with the instance's primary key.\<close>

definition order_of_application :: "store \<Rightarrow> application \<Rightarrow> error + order" where
  "order_of_application db instance =
     queryset_get [order. order \<leftarrow> Order_objects db, a \<leftarrow> Application_objects db,
                   order_id (application_order a) = order_id order
                   \<and> application_id a = application_id instance]"

definition sending_of_application :: "store \<Rightarrow> application \<Rightarrow> error + sending" where
  "sending_of_application db instance =
     queryset_get [sending. sending \<leftarrow> Sending_objects db, a \<leftarrow> Application_objects db,
                   sending_id (application_sending a) = sending_id sending
                   \<and> application_id a = application_id instance]"

section \<open>new_sendings_email (post_save of Sending)\<close>

text \<open>The queryset of the \<open>for\<close> loop:
  \<open>Order.objects.filter(departure_city=..., arrival_city=..., departure_date=...)\<close>.\<close>

definition matching_orders :: "store \<Rightarrow> sending \<Rightarrow> order list" where
  "matching_orders db instance =
     [order \<leftarrow> Order_objects db.
        city_id (order_departure_city order) = city_id (warehouse_city (departure_warehouse instance))
        \<and> city_id (order_arrival_city order) = city_id (warehouse_city (arrival_warehouse instance))
        \<and> order_departure_date order = departure_date instance]"

text \<open>
  The value of \<open>need_send\<close> after the \<open>try\<close> statement of the loop body. A model instance
  is truthy, so \<open>if order.application: pass\<close> only performs the lookup; only
  \<open>ObjectDoesNotExist\<close> is caught.
\<close>

definition need_send :: "store \<Rightarrow> order \<Rightarrow> error + bool" where
  "need_send db order =
     (case order_application db order of
        Inl ObjectDoesNotExist \<Rightarrow> Inr True
      | Inl e \<Rightarrow> Inl e
      | Inr application \<Rightarrow> Inr (status application \<noteq> ascii ''CONF''))"

text \<open>The task enqueued under \<open>if need_send\<close>. The subject reads "A new sending is
  available for your order".\<close>

definition new_sending_task :: "env \<Rightarrow> sending \<Rightarrow> order \<Rightarrow> task" where
  "new_sending_task env instance order =
     (let user_email = email (order_user order);
          subject = [1044, 1083, 1103, 32, 1074, 1072, 1096, 1077, 1075, 1086, 32, 1079, 1072,
                     1082, 1072, 1079, 1072, 32, 1076, 1086, 1089, 1090, 1091, 1087, 1085, 1086,
                     32, 1085, 1086, 1074, 1086, 1077, 32, 1086, 1090, 1087, 1088, 1072, 1074,
                     1083, 1077, 1085, 1080, 1077];
          html_message = render_to_string env (ascii ''emails/new_sending.html'')
                           [(ascii ''order'', Order_obj order),
                            (ascii ''sending'', Sending_obj instance),
                            (ascii ''SITE_URL'', Str (SITE_URL env))];
          plain_message = strip_tags env html_message;
          from_email = DEFAULT_FROM_EMAIL env
      in send_email_celery subject plain_message from_email user_email html_message)"

text \<open>The \<open>for\<close> loop over the queryset; an exception leaves the loop with the tasks
  enqueued so far.\<close>

fun new_sendings_loop :: "env \<Rightarrow> store \<Rightarrow> sending \<Rightarrow> order list \<Rightarrow> task list \<Rightarrow> handler_result" where
  "new_sendings_loop env db instance [] queue = (Inr (), queue)"
| "new_sendings_loop env db instance (order # rest) queue =
     (case need_send db order of
        Inl e \<Rightarrow> (Inl e, queue)
      | Inr ns \<Rightarrow>
          new_sendings_loop env db instance rest
            (if ns then queue @ [new_sending_task env instance order] else queue))"

definition new_sendings_email :: "env \<Rightarrow> store \<Rightarrow> sending \<Rightarrow> bool \<Rightarrow> task list \<Rightarrow> handler_result" where
  "new_sendings_email env db instance created queue =
     (if created then new_sendings_loop env db instance (matching_orders db instance) queue
      else (Inr (), queue))"

section \<open>application_status_email (post_save of Application)\<close>

text \<open>The two labels read "Confirmed" and "Declined"; the subject reads "The status
  of the application was updated".\<close>

definition application_status_email ::
  "env \<Rightarrow> store \<Rightarrow> application \<Rightarrow> bool \<Rightarrow> task list \<Rightarrow> handler_result" where
  "application_status_email env db instance created queue =
     (let status_label =
            (if status instance = ascii ''CONF''
               then [1055, 1086, 1076, 1090, 1074, 1077, 1088, 1078, 1076, 1077, 1085, 1086]
             else if status instance = ascii ''DECL''
               then [1054, 1090, 1082, 1083, 1086, 1085, 1077, 1085, 1086]
             else [])
      in if status_label \<noteq> [] then
           (let user_email = email (order_user (application_order instance)) in
            case order_of_application db instance of
              Inl e \<Rightarrow> (Inl e, queue)
            | Inr order \<Rightarrow>
               (case sending_of_application db instance of
                  Inl e \<Rightarrow> (Inl e, queue)
                | Inr sending \<Rightarrow>
                   (let subject = [1054, 1073, 1085, 1086, 1074, 1083, 1105, 1085, 32, 1089,
                                   1090, 1072, 1090, 1091, 1089, 32, 1079, 1072, 1103, 1074,
                                   1082, 1080];
                        html_message = render_to_string env (ascii ''emails/application_status.html'')
                                         [(ascii ''status'', Str status_label),
                                          (ascii ''order'', Order_obj order),
                                          (ascii ''sending'', Sending_obj sending),
                                          (ascii ''SITE_URL'', Str (SITE_URL env))];
                        plain_message = strip_tags env html_message;
                        from_email = DEFAULT_FROM_EMAIL env
                    in (Inr (), queue @ [send_email_celery subject plain_message from_email
                                           user_email html_message]))))
         else (Inr (), queue))"

section \<open>application_created_email (post_save of Application)\<close>

text \<open>\<open>WorkerProfile.objects.filter(company__sending__application=instance)\<close>: the worker
  rows joined with the sendings of their company and with the applications of those
  sendings, restricted to the application with the instance's primary key.\<close>

definition workers_list :: "store \<Rightarrow> application \<Rightarrow> worker_profile list" where
  "workers_list db instance =
     [worker. worker \<leftarrow> WorkerProfile_objects db,
              sending \<leftarrow> Sending_objects db,
              company_id (sending_company sending) = company_id (worker_company worker),
              a \<leftarrow> Application_objects db,
              sending_id (application_sending a) = sending_id sending
              \<and> application_id a = application_id instance]"

text \<open>The subject reads "A new application has appeared for your company".\<close>

definition application_created_email ::
  "env \<Rightarrow> store \<Rightarrow> application \<Rightarrow> bool \<Rightarrow> task list \<Rightarrow> handler_result" where
  "application_created_email env db instance created queue =
     (if created then
        (let emails = map (\<lambda>worker. email (worker_user worker)) (workers_list db instance) in
         case order_of_application db instance of
           Inl e \<Rightarrow> (Inl e, queue)
         | Inr order \<Rightarrow>
            (case sending_of_application db instance of
               Inl e \<Rightarrow> (Inl e, queue)
             | Inr sending \<Rightarrow>
                (let subject = [1055, 1086, 1103, 1074, 1080, 1083, 1072, 1089, 1100, 32, 1085,
                                1086, 1074, 1072, 1103, 32, 1079, 1072, 1103, 1074, 1082, 1072,
                                32, 1076, 1083, 1103, 32, 1074, 1072, 1096, 1077, 1081, 32, 1082,
                                1086, 1084, 1087, 1072, 1085, 1080, 1080];
                     html_message = render_to_string env (ascii ''emails/application_created.html'')
                                      [(ascii ''order'', Order_obj order),
                                       (ascii ''sending'', Sending_obj sending),
                                       (ascii ''application'', Application_obj instance),
                                       (ascii ''SITE_URL'', Str (SITE_URL env))];
                     plain_message = strip_tags env html_message;
                     from_email = DEFAULT_FROM_EMAIL env
                 in (Inr (), queue @ [send_many_email_celery subject plain_message from_email
                                        emails html_message]))))
      else (Inr (), queue))"

section \<open>Integrity of the store\<close>

text \<open>Primary keys are unique in each table.\<close>

definition pk_unique :: "store \<Rightarrow> bool" where
  "pk_unique db \<longleftrightarrow>
     distinct (map order_id (Order_objects db))
     \<and> distinct (map sending_id (Sending_objects db))
     \<and> distinct (map application_id (Application_objects db))
     \<and> distinct (map worker_id (WorkerProfile_objects db))"

text \<open>The unique column of \<open>Application.order = OneToOneField(Order)\<close>: no two
  application rows have the same order.\<close>

definition order_unique :: "store \<Rightarrow> bool" where
  "order_unique db \<longleftrightarrow>
     distinct (map (\<lambda>a. order_id (application_order a)) (Application_objects db))"

section \<open>The numbers of the specification\<close>

text \<open>
  \<open>round(x, n)\<close> on exact numbers, as the specification reads it: the nearest multiple
  of \<open>10 ^ -n\<close>, a tie going to the even multiple. Python's \<open>round\<close> of a float
  rounds the exact value of the float in the same way, before it returns the nearest float
  (see \<open>float_round\<close> below).
\<close>

definition rat_round_half_even :: "rat \<Rightarrow> int" where
  "rat_round_half_even x =
     (let f = \<lfloor>x\<rfloor>; r = x - of_int f
      in if r < 1 / 2 then f else if r > 1 / 2 then f + 1 else if even f then f else f + 1)"

definition round_places :: "rat \<Rightarrow> nat \<Rightarrow> rat" where
  "round_places x n = of_int (rat_round_half_even (x * 10 ^ n)) / 10 ^ n"

text \<open>The cargo volume as the specification states it: \<open>round(len * width * depth, 2)\<close>
  divided by 1,000,000, on exact numbers.\<close>

definition spec_cargo_volume :: "order \<Rightarrow> rat" where
  "spec_cargo_volume order =
     round_places (dec_value (cargo_len order) * dec_value (cargo_width order)
                   * dec_value (cargo_depth order)) 2 / 1000000"

text \<open>The values a \<open>DecimalField(max_digits, decimal_places)\<close> stores: that many decimal
  places and at most \<open>max_digits\<close> digits.\<close>

definition decimal_field :: "nat \<Rightarrow> nat \<Rightarrow> dec \<Rightarrow> bool" where
  "decimal_field max_digits decimal_places d \<longleftrightarrow>
     dexp d = - int decimal_places \<and> \<bar>dint d\<bar> < 10 ^ max_digits"

text \<open>An order whose dimensions are positive values of their fields, with a product that
  rounds to less than \<open>10 ^ 26\<close> cubic centimetres.\<close>

definition cargo_fits :: "order \<Rightarrow> bool" where
  "cargo_fits order \<longleftrightarrow>
     decimal_field 10 1 (cargo_len order) \<and> decimal_field 10 1 (cargo_width order)
     \<and> decimal_field 10 1 (cargo_depth order)
     \<and> 0 < dint (cargo_len order) \<and> 0 < dint (cargo_width order) \<and> 0 < dint (cargo_depth order)
     \<and> round_places (dec_value (cargo_len order) * dec_value (cargo_width order)
                       * dec_value (cargo_depth order)) 2 < 10 ^ 26"

text \<open>A decimal with an exponent of at least -8, counted in units of \<open>10 ^ -8\<close>.\<close>

definition dec_units :: "dec \<Rightarrow> int" where
  "dec_units d = dint d * 10 ^ nat (dexp d + 8)"

text \<open>The orders attached to a sending through its applications, as the specification
  words it.\<close>

definition orders_via_applications :: "store \<Rightarrow> sending \<Rightarrow> order list" where
  "orders_via_applications db self =
     [application_order a. a \<leftarrow> Application_objects db,
        sending_id (application_sending a) = sending_id self]"

section \<open>Python floats and Application.price\<close>












section \<open>Writing Application rows\<close>

text \<open>
  Modelled from the spec: the write path of the store for Application rows, which is the
  database's and not among the repository's sources. The declaration
  \<open>order = models.OneToOneField(to=Order, ...)\<close> makes the order column unique; the spec
  says that a duplicate Application for one Order is a uniqueness conflict, "surfaced as
  an error to the second writer, not as silent overwrite", and that such errors "surface
  as store-level constraint failures at write time". An insert is refused when the
  primary key or the order is already taken, an update when another row has the order.
\<close>

definition application_create :: "store \<Rightarrow> application \<Rightarrow> error + store" where
  "application_create db a =
     (if application_id a \<in> set (map application_id (Application_objects db))
         \<or> order_id (application_order a)
             \<in> set (map (\<lambda>b. order_id (application_order b)) (Application_objects db))
      then Inl IntegrityError
      else Inr (db\<lparr>Application_objects := Application_objects db @ [a]\<rparr>))"

definition application_update :: "store \<Rightarrow> application \<Rightarrow> error + store" where
  "application_update db a =
     (if order_id (application_order a)
           \<in> set (map (\<lambda>b. order_id (application_order b))
                    [b \<leftarrow> Application_objects db. application_id b \<noteq> application_id a])
      then Inl IntegrityError
      else Inr (db\<lparr>Application_objects :=
                     map (\<lambda>b. if application_id b = application_id a then a else b)
                       (Application_objects db)\<rparr>))"

definition application_delete :: "store \<Rightarrow> nat \<Rightarrow> store" where
  "application_delete db k =
     db\<lparr>Application_objects := [b \<leftarrow> Application_objects db. application_id b \<noteq> k]\<rparr>"

text \<open>The store states reachable from a store without applications by creating, updating
  and deleting applications, and by any change to the other tables.\<close>

inductive reachable :: "store \<Rightarrow> bool" where
  no_applications: "Application_objects db = [] \<Longrightarrow> reachable db"
| created: "reachable db \<Longrightarrow> application_create db a = Inr db' \<Longrightarrow> reachable db'"
| updated: "reachable db \<Longrightarrow> application_update db a = Inr db' \<Longrightarrow> reachable db'"
| deleted: "reachable db \<Longrightarrow> reachable (application_delete db k)"
| other_tables: "reachable db \<Longrightarrow> Application_objects db' = Application_objects db \<Longrightarrow> reachable db'"

section \<open>A small store for the examples\<close>

text \<open>Two cities, one company with its warehouses in them, and a sending from the first
  city to the second on day 100, arriving on day 101, with 10.00 cubic metres at 500.00.\<close>

definition ex_city :: "nat \<Rightarrow> city" where
  "ex_city k = \<lparr>city_id = k, city_name = ascii ''city'',
                city_country = \<lparr>country_id = 1, country_name = ascii ''country''\<rparr>\<rparr>"

definition ex_company :: "nat \<Rightarrow> company" where
  "ex_company k = \<lparr>company_id = k, company_name = ascii ''company'', company_info = []\<rparr>"

definition ex_user :: "nat \<Rightarrow> string \<Rightarrow> user" where
  "ex_user k mail = \<lparr>user_id = k, username = ascii ''user'', email = ascii mail\<rparr>"

definition ex_warehouse :: "nat \<Rightarrow> warehouse" where
  "ex_warehouse k = \<lparr>warehouse_id = k, address = ascii ''address'',
                     warehouse_company = ex_company 1, warehouse_city = ex_city k\<rparr>"

definition ex_order :: "nat \<Rightarrow> date \<Rightarrow> dec \<Rightarrow> dec \<Rightarrow> dec \<Rightarrow> order" where
  "ex_order k day l w d =
     \<lparr>order_id = k, order_user = ex_user k (''customer'' @ [char_of (48 + k)]),
      order_departure_city = ex_city 1, order_arrival_city = ex_city 2,
      sender_fullname = ascii ''sender'', recipient_fullname = ascii ''recipient'',
      direct_take = False, direct_take_address = [],
      direct_deliver = False, direct_deliver_address = [],
      order_departure_date = day, cargo_type = ascii ''PACK'',
      cargo_len = l, cargo_width = w, cargo_depth = d,
      cargo_weight = \<lparr>dint = 100, dexp = - 2\<rparr>,
      insurance_price = \<lparr>dint = 0, dexp = - 2\<rparr>, additional_info = []\<rparr>"

text \<open>An order with the given dimensions, in tenths of a centimetre.\<close>

definition ex_dims :: "int \<Rightarrow> int \<Rightarrow> int \<Rightarrow> order" where
  "ex_dims l w d = ex_order 1 100 \<lparr>dint = l, dexp = - 1\<rparr> \<lparr>dint = w, dexp = - 1\<rparr> \<lparr>dint = d, dexp = - 1\<rparr>"

definition ex_sending :: "nat \<Rightarrow> order list \<Rightarrow> sending" where
  "ex_sending k os =
     \<lparr>sending_id = k, sending_company = ex_company 1,
      departure_warehouse = ex_warehouse 1, departure_date = 100,
      arrival_warehouse = ex_warehouse 2, arrival_date = 101,
      total_volume = \<lparr>dint = 1000, dexp = - 2\<rparr>,
      sending_transport = \<lparr>transport_id = 1, transport_type = ascii ''CAR'', number = [],
                             transport_company = ex_company 1\<rparr>,
      orders = os, price_for_m3 = \<lparr>dint = 50000, dexp = - 2\<rparr>\<rparr>"

definition ex_application :: "nat \<Rightarrow> order \<Rightarrow> string \<Rightarrow> application" where
  "ex_application k order st =
     \<lparr>application_id = k, application_order = order, application_sending = ex_sending 1 [],
      status = ascii st, info = []\<rparr>"


definition ex_worker :: "nat \<Rightarrow> nat \<Rightarrow> string \<Rightarrow> worker_profile" where
  "ex_worker k c mail =
     \<lparr>worker_id = k, worker_user = ex_user (10 + k) mail, worker_company = ex_company c,
      position = ascii ''manager''\<rparr>"

text \<open>Orders 1, 2 and 3 match the sending (order 1 has no application, the application
  of order 2 waits, that of order 3 is confirmed); order 4 leaves a day later. Three
  workers of company 1, two of them with one address, and one worker of company 2.\<close>

definition ex_o :: "nat \<Rightarrow> order" where
  "ex_o k = ex_order k (if k = 4 then 101 else 100)
              \<lparr>dint = 1000, dexp = - 1\<rparr> \<lparr>dint = 500, dexp = - 1\<rparr> \<lparr>dint = 200, dexp = - 1\<rparr>"

definition ex_db :: store where
  "ex_db =
     \<lparr>Order_objects = [ex_o 1, ex_o 2, ex_o 3, ex_o 4],
      Sending_objects = [ex_sending 1 [], ex_sending 2 []],
      Application_objects = [ex_application 1 (ex_o 2) ''WAIT'', ex_application 2 (ex_o 3) ''CONF''],
      WorkerProfile_objects = [ex_worker 1 1 ''a@x'', ex_worker 2 2 ''b@x'', ex_worker 3 1 ''a@x'',
                               ex_worker 4 1 ''c@x'']\<rparr>"

text \<open>A renderer that returns the template name, and a tag stripper that changes
  nothing.\<close>

definition ex_env :: env where
  "ex_env = \<lparr>SITE_URL = ascii ''http://site'', DEFAULT_FROM_EMAIL = ascii ''from@x'',
              render_to_string = (\<lambda>name ctx. name), strip_tags = (\<lambda>s. s)\<rparr>"

section \<open>Properties of Sending.days\<close>

text \<open>
  C4. For every Sending, \<open>days\<close> takes \<open>n\<close>, the day difference of arrival and departure,
  and returns \<open>n\<close> in decimal, a space, and the plural form chosen by the three-way rule:
  the first form when \<open>n mod 10 = 1\<close> and \<open>n mod 100 \<noteq> 11\<close>; the second when
  \<open>2 \<le> n mod 10 \<le> 4\<close> and \<open>n mod 100\<close> is not in \<open>[10, 20)\<close>; the third otherwise.
  So 1, 11, 22 and 25 days give the first, third, second and third form.
\<close>

theorem days_plural_rule:
  "days self =
     (let n = arrival_date self - departure_date self in
      Inr (str_int n @ [32] @
        (if n mod 10 = 1 \<and> n mod 100 \<noteq> 11 then [1076, 1077, 1085, 1100]
         else if 2 \<le> n mod 10 \<and> n mod 10 \<le> 4 \<and> \<not> (10 \<le> n mod 100 \<and> n mod 100 < 20)
           then [1076, 1085, 1103]
         else [1076, 1085, 1077, 1081])))
   \<and> days (self\<lparr>departure_date := d, arrival_date := d + 1\<rparr>)
       = Inr [49, 32, 1076, 1077, 1085, 1100]
   \<and> days (self\<lparr>departure_date := d, arrival_date := d + 11\<rparr>)
       = Inr [49, 49, 32, 1076, 1085, 1077, 1081]
   \<and> days (self\<lparr>departure_date := d, arrival_date := d + 22\<rparr>)
       = Inr [50, 50, 32, 1076, 1085, 1103]
   \<and> days (self\<lparr>departure_date := d, arrival_date := d + 25\<rparr>)
       = Inr [50, 53, 32, 1076, 1085, 1077, 1081]"
  by (auto simp add: days_def Let_def list_index_def days_list_def str_int_def nat_digits.simps)

text \<open>
  C10. \<open>days\<close> returns a label for every pair of dates (the index into \<open>days_list\<close> is
  never out of range), also for zero and negative differences, where the floored remainder
  is non-negative: 0 days gives "0" with the third form; -1 gives "-1" with the third form
  (\<open>-1 mod 10 = 9\<close>); -9 gives "-9" with the first form (\<open>-9 mod 10 = 1\<close>,
  \<open>-9 mod 100 = 91\<close>); -38 gives "-38" with the second form (\<open>-38 mod 10 = 2\<close>,
  \<open>-38 mod 100 = 62\<close>).
\<close>

theorem days_total_negative:
  "(\<exists>w. days self = Inr w)
   \<and> days (self\<lparr>departure_date := d, arrival_date := d\<rparr>)
       = Inr [48, 32, 1076, 1085, 1077, 1081]
   \<and> (- 1 :: int) mod 10 = 9
   \<and> days (self\<lparr>departure_date := d, arrival_date := d - 1\<rparr>)
       = Inr [45, 49, 32, 1076, 1085, 1077, 1081]
   \<and> (- 9 :: int) mod 10 = 1 \<and> (- 9 :: int) mod 100 = 91
   \<and> days (self\<lparr>departure_date := d, arrival_date := d - 9\<rparr>)
       = Inr [45, 57, 32, 1076, 1077, 1085, 1100]
   \<and> (- 38 :: int) mod 10 = 2 \<and> (- 38 :: int) mod 100 = 62
   \<and> days (self\<lparr>departure_date := d, arrival_date := d - 38\<rparr>)
       = Inr [45, 51, 56, 32, 1076, 1085, 1103]"
  by (simp add: days_def Let_def list_index_def days_list_def str_int_def nat_digits.simps)

section \<open>Lemmas on queries over tables with unique keys\<close>

lemma filter_key_unique:
  "distinct (map f xs) \<Longrightarrow> x \<in> set xs \<Longrightarrow> [y \<leftarrow> xs. f y = f x] = [x]"
proof (induction xs)
  case Nil
  then show ?case by simp
next
  case (Cons z zs)
  show ?case
  proof (cases "z = x")
    case True
    with Cons.prems have "f x \<notin> f ` set zs" by simp
    then have "\<forall>y \<in> set zs. f y \<noteq> f x" by (metis imageI)
    then have "[y \<leftarrow> zs. f y = f x] = []" by (simp add: filter_empty_conv)
    with True show ?thesis by simp
  next
    case False
    with Cons.prems have "x \<in> set zs" by simp
    moreover from Cons.prems this have "f z \<noteq> f x" by force
    ultimately show ?thesis using Cons by simp
  qed
qed

lemma filter_key_cases:
  assumes "distinct (map f xs)"
  shows "[y \<leftarrow> xs. f y = k] = [] \<or> (\<exists>x \<in> set xs. f x = k \<and> [y \<leftarrow> xs. f y = k] = [x])"
proof (cases "k \<in> f ` set xs")
  case False
  then show ?thesis by (auto simp: filter_empty_conv)
next
  case True
  then obtain x where "x \<in> set xs" "f x = k" by auto
  with filter_key_unique [OF assms, of x] show ?thesis by auto
qed

lemma concat_map_if:
  "concat (map (\<lambda>x. if P x then [g x] else []) xs) = map g (filter P xs)"
  by (induction xs) auto

lemma join_inner:
  assumes "distinct (map f ys)" and "y0 \<in> set ys"
  shows "concat (map (\<lambda>y. if h y = k \<and> f y = f y0 then [x] else []) ys)
         = (if k = h y0 then [x] else [])"
proof -
  have "concat (map (\<lambda>y. if h y = k \<and> f y = f y0 then [x] else []) ys)
        = map (\<lambda>_. x) [y \<leftarrow> [y \<leftarrow> ys. f y = f y0]. h y = k]"
    by (simp add: concat_map_if conj_commute)
  also have "\<dots> = (if k = h y0 then [x] else [])"
    using filter_key_unique [OF assms] by auto
  finally show ?thesis .
qed

lemma distinct_map_head:
  assumes "distinct (map f (x # xs))" and "y \<in> set xs"
  shows "f y \<noteq> f x"
proof
  assume "f y = f x"
  with assms(2) have "f x \<in> f ` set xs" by (metis imageI)
  with assms(1) show False by simp
qed

lemma distinct_key_count:
  "distinct (map f xs) \<Longrightarrow> length [x \<leftarrow> xs. f x = k] \<le> 1"
proof (induction xs)
  case Nil
  then show ?case by simp
next
  case (Cons x xs)
  show ?case
  proof (cases "f x = k")
    case True
    with distinct_map_head [OF Cons.prems] have "\<forall>y \<in> set xs. f y \<noteq> k" by simp
    then have "[y \<leftarrow> xs. f y = k] = []" by (simp add: filter_empty_conv)
    with True show ?thesis by simp
  next
    case False
    with Cons show ?thesis by simp
  qed
qed

section \<open>Lemmas on the lookups of the handlers\<close>

lemma order_application_cases:
  assumes "order_unique db"
  shows "(order_application db order = Inl ObjectDoesNotExist
            \<and> (\<forall>a \<in> set (Application_objects db). order_id (application_order a) \<noteq> order_id order))
         \<or> (\<exists>a \<in> set (Application_objects db).
               order_id (application_order a) = order_id order \<and> order_application db order = Inr a)"
  using filter_key_cases [OF assms [unfolded order_unique_def], of "order_id order"]
  by (auto simp: order_application_def queryset_get_def filter_empty_conv)

lemma order_application_found:
  assumes "order_unique db" and "a \<in> set (Application_objects db)"
    and "order_id (application_order a) = order_id order"
  shows "order_application db order = Inr a"
  using filter_key_unique [OF assms(1) [unfolded order_unique_def] assms(2)] assms(3)
  by (simp add: order_application_def queryset_get_def)

lemma order_application_missing:
  assumes "(\<forall>a \<in> set (Application_objects db). order_id (application_order a) \<noteq> order_id order)"
  shows "order_application db order = Inl ObjectDoesNotExist"
proof -
  have "[a \<leftarrow> Application_objects db. order_id (application_order a) = order_id order] = []"
    using assms by (auto simp: filter_empty_conv)
  then show ?thesis by (simp add: order_application_def queryset_get_def)
qed

lemma need_send_returns:
  assumes "order_unique db"
  shows "\<exists>b. need_send db order = Inr b"
  using order_application_cases [OF assms, of order]
  by (auto simp: need_send_def)

lemma new_sendings_loop_eq:
  assumes "order_unique db"
  shows "new_sendings_loop env db instance xs queue
         = (Inr (), queue @ map (new_sending_task env instance) [order \<leftarrow> xs. need_send db order = Inr True])"
proof (induction xs arbitrary: queue)
  case Nil
  then show ?case by simp
next
  case (Cons x xs)
  from need_send_returns [OF assms, of x] obtain b where "need_send db x = Inr b" ..
  then show ?case using Cons.IH by (cases b) simp_all
qed

lemma order_of_application_found:
  assumes "pk_unique db" and "instance \<in> set (Application_objects db)"
    and "order \<in> set (Order_objects db)"
    and "order_id order = order_id (application_order instance)"
  shows "order_of_application db instance = Inr order"
proof -
  from assms(1) have da: "distinct (map application_id (Application_objects db))"
    and d: "distinct (map order_id (Order_objects db))"
    by (simp_all add: pk_unique_def)
  have "[x. x \<leftarrow> Order_objects db, a \<leftarrow> Application_objects db,
           order_id (application_order a) = order_id x \<and> application_id a = application_id instance]
        = [x \<leftarrow> Order_objects db. order_id x = order_id (application_order instance)]"
    by (simp add: join_inner [OF da assms(2)] concat_map_if [where g = "\<lambda>x. x", simplified])
  also have "\<dots> = [order]"
    using filter_key_unique [OF d assms(3)] assms(4) by simp
  finally show ?thesis by (simp add: order_of_application_def queryset_get_def)
qed

lemma sending_of_application_found:
  assumes "pk_unique db" and "instance \<in> set (Application_objects db)"
    and "sending \<in> set (Sending_objects db)"
    and "sending_id sending = sending_id (application_sending instance)"
  shows "sending_of_application db instance = Inr sending"
proof -
  from assms(1) have da: "distinct (map application_id (Application_objects db))"
    and d: "distinct (map sending_id (Sending_objects db))"
    by (simp_all add: pk_unique_def)
  have "[x. x \<leftarrow> Sending_objects db, a \<leftarrow> Application_objects db,
           sending_id (application_sending a) = sending_id x \<and> application_id a = application_id instance]
        = [x \<leftarrow> Sending_objects db. sending_id x = sending_id (application_sending instance)]"
    by (simp add: join_inner [OF da assms(2)] concat_map_if [where g = "\<lambda>x. x", simplified])
  also have "\<dots> = [sending]"
    using filter_key_unique [OF d assms(3)] assms(4) by simp
  finally show ?thesis by (simp add: sending_of_application_def queryset_get_def)
qed

lemma workers_list_eq:
  assumes "pk_unique db" and "instance \<in> set (Application_objects db)"
    and "sending \<in> set (Sending_objects db)"
    and "sending_id sending = sending_id (application_sending instance)"
  shows "workers_list db instance
         = [worker \<leftarrow> WorkerProfile_objects db.
              company_id (worker_company worker) = company_id (sending_company sending)]"
proof -
  from assms(1) have da: "distinct (map application_id (Application_objects db))"
    and d: "distinct (map sending_id (Sending_objects db))"
    by (simp_all add: pk_unique_def)
  have inner: "concat (map (\<lambda>s. if company_id (sending_company s) = company_id (worker_company w)
                              then concat (map (\<lambda>a. if sending_id (application_sending a) = sending_id s
                                                      \<and> application_id a = application_id instance
                                                    then [w] else []) (Application_objects db))
                              else []) (Sending_objects db))
      = (if company_id (worker_company w) = company_id (sending_company sending) then [w] else [])" for w
  proof -
    have "concat (map (\<lambda>s. if company_id (sending_company s) = company_id (worker_company w)
                              then concat (map (\<lambda>a. if sending_id (application_sending a) = sending_id s
                                                      \<and> application_id a = application_id instance
                                                    then [w] else []) (Application_objects db))
                              else []) (Sending_objects db))
        = concat (map (\<lambda>s. if company_id (sending_company s) = company_id (worker_company w)
                               \<and> sending_id s = sending_id sending
                             then [w] else []) (Sending_objects db))"
      by (rule arg_cong [where f = concat], rule map_cong [OF refl])
         (simp add: join_inner [OF da assms(2)] assms(4))
    also have "\<dots> = (if company_id (worker_company w) = company_id (sending_company sending) then [w] else [])"
      using join_inner [OF d assms(3), of "\<lambda>s. company_id (sending_company s)"
          "company_id (worker_company w)" w]
      by (simp add: eq_commute)
    finally show ?thesis .
  qed
  show ?thesis
    by (simp add: workers_list_def inner concat_map_if [where g = "\<lambda>x. x", simplified])
qed

section \<open>Lemmas on the example store\<close>

lemmas ex_defs = ex_db_def ex_application_def ex_o_def ex_order_def ex_sending_def
  ex_warehouse_def ex_city_def ex_company_def ex_user_def ex_worker_def ex_env_def

lemma ex_db_order_unique: "order_unique ex_db"
  by (simp add: order_unique_def ex_defs)

lemma ex_db_pk_unique: "pk_unique ex_db"
  by (simp add: pk_unique_def ex_defs)

lemma ex_db_order_ids: "distinct (map order_id (Order_objects ex_db))"
  using ex_db_pk_unique by (simp add: pk_unique_def)

section \<open>Properties of the signal handlers\<close>

text \<open>
  C1. On the creation of a Sending, the handler evaluates exactly the orders whose departure
  city is the city of the sending's departure warehouse, whose arrival city is the city of
  its arrival warehouse and whose departure date is the sending's (equality on all three);
  these orders are pairwise different. It enqueues one task for each of them for which
  \<open>need_send\<close> is true, and nothing else, so at most one task per order. On a save of an
  existing Sending (\<open>created\<close> false) it enqueues nothing. The primary key of the order
  table and the order column of the application table are unique.
\<close>

theorem new_sendings_email_selects:
  assumes "order_unique db" and "distinct (map order_id (Order_objects db))"
  shows "matching_orders db instance
           = [order \<leftarrow> Order_objects db.
                city_id (order_departure_city order) = city_id (warehouse_city (departure_warehouse instance))
                \<and> city_id (order_arrival_city order) = city_id (warehouse_city (arrival_warehouse instance))
                \<and> order_departure_date order = departure_date instance]
         \<and> distinct (map order_id (matching_orders db instance))
         \<and> new_sendings_email env db instance True queue
           = (Inr (), queue @ map (new_sending_task env instance)
                               [order \<leftarrow> matching_orders db instance. need_send db order = Inr True])
         \<and> distinct (map order_id [order \<leftarrow> matching_orders db instance. need_send db order = Inr True])
         \<and> length [order \<leftarrow> matching_orders db instance.
                     need_send db order = Inr True \<and> order_id order = k] \<le> 1
         \<and> new_sendings_email env db instance False queue = (Inr (), queue)"
proof -
  have m: "distinct (map order_id (matching_orders db instance))"
    using assms(2) by (simp add: matching_orders_def distinct_map_filter)
  then have q: "distinct (map order_id [order \<leftarrow> matching_orders db instance. need_send db order = Inr True])"
    by (rule distinct_map_filter)
  have "[order \<leftarrow> matching_orders db instance. need_send db order = Inr True \<and> order_id order = k]
        = [order \<leftarrow> [order \<leftarrow> matching_orders db instance. need_send db order = Inr True].
             order_id order = k]"
    by simp
  with distinct_key_count [OF q, of k]
  have c: "length [order \<leftarrow> matching_orders db instance.
                     need_send db order = Inr True \<and> order_id order = k] \<le> 1"
    by (simp only:)
  have e: "new_sendings_email env db instance True queue
           = (Inr (), queue @ map (new_sending_task env instance)
                               [order \<leftarrow> matching_orders db instance. need_send db order = Inr True])"
    and f: "new_sendings_email env db instance False queue = (Inr (), queue)"
    by (simp_all add: new_sendings_email_def new_sendings_loop_eq [OF assms(1)])
  have d: "matching_orders db instance
           = [order \<leftarrow> Order_objects db.
                city_id (order_departure_city order) = city_id (warehouse_city (departure_warehouse instance))
                \<and> city_id (order_arrival_city order) = city_id (warehouse_city (arrival_warehouse instance))
                \<and> order_departure_date order = departure_date instance]"
    by (simp add: matching_orders_def)
  from d m e q c f show ?thesis by blast
qed

theorem new_sendings_email_selects_witness:
  "order_unique ex_db
   \<and> distinct (map order_id (Order_objects ex_db))
   \<and> matching_orders ex_db (ex_sending 1 []) = [ex_o 1, ex_o 2, ex_o 3]
   \<and> new_sendings_email ex_env ex_db (ex_sending 1 []) True []
       = (Inr (), [new_sending_task ex_env (ex_sending 1 []) (ex_o 1),
                   new_sending_task ex_env (ex_sending 1 []) (ex_o 2)])
   \<and> new_sendings_email ex_env ex_db (ex_sending 1 []) False [] = (Inr (), [])"
  using new_sendings_email_selects [OF ex_db_order_unique ex_db_order_ids,
      of "ex_sending 1 []" ex_env "[]"] ex_db_order_unique ex_db_order_ids
  by (simp add: matching_orders_def need_send_def order_application_def queryset_get_def
      ex_defs ascii_def)

text \<open>
  C2. For every order, \<open>need_send\<close> is computed without failure: it is true when no
  application row has the order (the lookup raises \<open>ObjectDoesNotExist\<close>, which is caught),
  and otherwise it is true exactly when the status of the order's application is not
  \<open>CONF\<close>; \<open>WAIT\<close> and \<open>DECL\<close> are such statuses.
\<close>

theorem need_send_rule:
  assumes "order_unique db"
  shows "(\<exists>b. need_send db order = Inr b)
    \<and> ((\<forall>a \<in> set (Application_objects db). order_id (application_order a) \<noteq> order_id order)
         \<longrightarrow> order_application db order = Inl ObjectDoesNotExist \<and> need_send db order = Inr True)
    \<and> (\<forall>a \<in> set (Application_objects db). order_id (application_order a) = order_id order
         \<longrightarrow> need_send db order = Inr (status a \<noteq> ascii ''CONF''))
    \<and> ascii ''WAIT'' \<noteq> ascii ''CONF'' \<and> ascii ''DECL'' \<noteq> ascii ''CONF''"
  using need_send_returns [OF assms, of order] order_application_missing [of db order]
    order_application_found [OF assms, of _ order]
  by (auto simp: need_send_def ascii_def)

theorem need_send_rule_witness:
  "order_unique ex_db
   \<and> order_application ex_db (ex_o 1) = Inl ObjectDoesNotExist
   \<and> need_send ex_db (ex_o 1) = Inr True
   \<and> need_send ex_db (ex_o 2) = Inr True
   \<and> need_send ex_db (ex_o 3) = Inr False"
  using need_send_rule [OF ex_db_order_unique, of "ex_o 1"] need_send_rule [OF ex_db_order_unique, of "ex_o 2"]
    need_send_rule [OF ex_db_order_unique, of "ex_o 3"] ex_db_order_unique
  by (simp add: ex_defs ascii_def)

text \<open>
  C5. On every save of an Application that is in the store with its order and sending
  (\<open>created\<close> true or false), the handler enqueues exactly one task, addressed to the user
  of the application's order, when the status is \<open>CONF\<close> or \<open>DECL\<close>, rendered with the
  label "Confirmed" for \<open>CONF\<close> and "Declined" for \<open>DECL\<close>, and no task otherwise, in
  particular none for \<open>WAIT\<close>.
\<close>

theorem application_status_email_rule:
  assumes "pk_unique db" and "instance \<in> set (Application_objects db)"
    and "order \<in> set (Order_objects db)"
    and "order_id order = order_id (application_order instance)"
    and "sending \<in> set (Sending_objects db)"
    and "sending_id sending = sending_id (application_sending instance)"
  shows "application_status_email env db instance created queue =
    (let label = (if status instance = ascii ''CONF''
                    then [1055, 1086, 1076, 1090, 1074, 1077, 1088, 1078, 1076, 1077, 1085, 1086]
                  else [1054, 1090, 1082, 1083, 1086, 1085, 1077, 1085, 1086]);
         html = render_to_string env (ascii ''emails/application_status.html'')
                  [(ascii ''status'', Str label), (ascii ''order'', Order_obj order),
                   (ascii ''sending'', Sending_obj sending), (ascii ''SITE_URL'', Str (SITE_URL env))]
     in if status instance = ascii ''CONF'' \<or> status instance = ascii ''DECL''
        then (Inr (), queue @ [send_email_celery
                 [1054, 1073, 1085, 1086, 1074, 1083, 1105, 1085, 32, 1089, 1090, 1072, 1090,
                  1091, 1089, 32, 1079, 1072, 1103, 1074, 1082, 1080]
                 (strip_tags env html) (DEFAULT_FROM_EMAIL env)
                 (email (order_user (application_order instance))) html])
        else (Inr (), queue))
    \<and> (status instance = ascii ''WAIT''
         \<longrightarrow> application_status_email env db instance created queue = (Inr (), queue))"
  by (auto simp: application_status_email_def Let_def
      order_of_application_found [OF assms(1-4)] sending_of_application_found [OF assms(1,2,5,6)]
      ascii_def)

theorem application_status_email_rule_witness:
  "pk_unique ex_db
   \<and> ex_application 2 (ex_o 3) ''CONF'' \<in> set (Application_objects ex_db)
   \<and> ex_o 3 \<in> set (Order_objects ex_db)
   \<and> ex_sending 1 [] \<in> set (Sending_objects ex_db)
   \<and> application_status_email ex_env ex_db (ex_application 2 (ex_o 3) ''CONF'') False []
       = (Inr (), [send_email_celery
                     [1054, 1073, 1085, 1086, 1074, 1083, 1105, 1085, 32, 1089, 1090, 1072, 1090,
                      1091, 1089, 32, 1079, 1072, 1103, 1074, 1082, 1080]
                     (ascii ''emails/application_status.html'') (ascii ''from@x'')
                     (ascii ''customer3'') (ascii ''emails/application_status.html'')])
   \<and> application_status_email ex_env ex_db (ex_application 2 (ex_o 3) ''CONF'') True []
       = application_status_email ex_env ex_db (ex_application 2 (ex_o 3) ''CONF'') False []
   \<and> application_status_email ex_env ex_db (ex_application 1 (ex_o 2) ''WAIT'') True []
       = (Inr (), [])"
proof -
  have a: "ex_application 2 (ex_o 3) ''CONF'' \<in> set (Application_objects ex_db)"
    and a': "ex_application 1 (ex_o 2) ''WAIT'' \<in> set (Application_objects ex_db)"
    and o: "ex_o 3 \<in> set (Order_objects ex_db)"
    and o': "ex_o 2 \<in> set (Order_objects ex_db)"
    and s: "ex_sending 1 [] \<in> set (Sending_objects ex_db)"
    by (simp_all add: ex_db_def)
  have oi: "order_id (ex_o 3) = order_id (application_order (ex_application 2 (ex_o 3) ''CONF''))"
    and oi': "order_id (ex_o 2) = order_id (application_order (ex_application 1 (ex_o 2) ''WAIT''))"
    and si: "sending_id (ex_sending 1 [])
             = sending_id (application_sending (ex_application 2 (ex_o 3) ''CONF''))"
    and si': "sending_id (ex_sending 1 [])
             = sending_id (application_sending (ex_application 1 (ex_o 2) ''WAIT''))"
    by (simp_all add: ex_application_def)
  show ?thesis
    using application_status_email_rule [OF ex_db_pk_unique a o oi s si, of ex_env False "[]"]
      application_status_email_rule [OF ex_db_pk_unique a o oi s si, of ex_env True "[]"]
      application_status_email_rule [OF ex_db_pk_unique a' o' oi' s si', of ex_env True "[]"]
      ex_db_pk_unique a o s
    by (simp add: Let_def ex_application_def ex_env_def ex_o_def ex_order_def ex_user_def ascii_def)
qed

text \<open>
  C6. On the creation of an Application that is in the store with its order and sending,
  the handler enqueues exactly one multi-recipient task; its recipients are the addresses
  of the users of all worker profiles whose company is the company of the application's
  sending, one address per worker profile in table order, duplicates kept.
\<close>

theorem application_created_email_recipients:
  assumes "pk_unique db" and "instance \<in> set (Application_objects db)"
    and "order \<in> set (Order_objects db)"
    and "order_id order = order_id (application_order instance)"
    and "sending \<in> set (Sending_objects db)"
    and "sending_id sending = sending_id (application_sending instance)"
  shows "application_created_email env db instance True queue =
    (let html = render_to_string env (ascii ''emails/application_created.html'')
                  [(ascii ''order'', Order_obj order), (ascii ''sending'', Sending_obj sending),
                   (ascii ''application'', Application_obj instance),
                   (ascii ''SITE_URL'', Str (SITE_URL env))]
     in (Inr (), queue @ [send_many_email_celery
            [1055, 1086, 1103, 1074, 1080, 1083, 1072, 1089, 1100, 32, 1085, 1086, 1074, 1072,
             1103, 32, 1079, 1072, 1103, 1074, 1082, 1072, 32, 1076, 1083, 1103, 32, 1074, 1072,
             1096, 1077, 1081, 32, 1082, 1086, 1084, 1087, 1072, 1085, 1080, 1080]
            (strip_tags env html) (DEFAULT_FROM_EMAIL env)
            (map (\<lambda>worker. email (worker_user worker))
               [worker \<leftarrow> WorkerProfile_objects db.
                  company_id (worker_company worker) = company_id (sending_company sending)])
            html]))"
  by (simp add: application_created_email_def Let_def
      order_of_application_found [OF assms(1-4)] sending_of_application_found [OF assms(1,2,5,6)]
      workers_list_eq [OF assms(1,2,5,6)])

theorem application_created_email_recipients_witness:
  "pk_unique ex_db
   \<and> ex_application 1 (ex_o 2) ''WAIT'' \<in> set (Application_objects ex_db)
   \<and> ex_o 2 \<in> set (Order_objects ex_db)
   \<and> ex_sending 1 [] \<in> set (Sending_objects ex_db)
   \<and> application_created_email ex_env ex_db (ex_application 1 (ex_o 2) ''WAIT'') True []
       = (Inr (), [send_many_email_celery
                     [1055, 1086, 1103, 1074, 1080, 1083, 1072, 1089, 1100, 32, 1085, 1086, 1074,
                      1072, 1103, 32, 1079, 1072, 1103, 1074, 1082, 1072, 32, 1076, 1083, 1103,
                      32, 1074, 1072, 1096, 1077, 1081, 32, 1082, 1086, 1084, 1087, 1072, 1085,
                      1080, 1080]
                     (ascii ''emails/application_created.html'') (ascii ''from@x'')
                     [ascii ''a@x'', ascii ''a@x'', ascii ''c@x'']
                     (ascii ''emails/application_created.html'')])"
proof -
  have a: "ex_application 1 (ex_o 2) ''WAIT'' \<in> set (Application_objects ex_db)"
    and o: "ex_o 2 \<in> set (Order_objects ex_db)"
    and s: "ex_sending 1 [] \<in> set (Sending_objects ex_db)"
    by (simp_all add: ex_db_def)
  have oi: "order_id (ex_o 2) = order_id (application_order (ex_application 1 (ex_o 2) ''WAIT''))"
    and si: "sending_id (ex_sending 1 [])
             = sending_id (application_sending (ex_application 1 (ex_o 2) ''WAIT''))"
    by (simp_all add: ex_application_def)
  show ?thesis
    using application_created_email_recipients [OF ex_db_pk_unique a o oi s si, of ex_env "[]"] ex_db_pk_unique a o s
    by (simp add: Let_def ex_env_def ex_db_def ex_worker_def ex_sending_def ex_company_def
        ex_user_def)
qed

section \<open>The one-to-one link of Application and Order\<close>

lemma update_keys:
  "k \<in> set (map g (map (\<lambda>b. if P b then a else b) xs)) \<Longrightarrow> k = g a \<or> k \<in> set (map g xs)"
  by (induction xs) (auto split: if_splits)

lemma update_keeps_ids:
  "map application_id (map (\<lambda>b. if application_id b = application_id a then a else b) xs)
   = map application_id xs"
  by (induction xs) auto

lemma update_absent:
  "\<forall>b \<in> set xs. application_id b \<noteq> application_id a
   \<Longrightarrow> map (\<lambda>b. if application_id b = application_id a then a else b) xs = xs"
  by (induction xs) auto

lemma update_keeps_order_unique:
  assumes "distinct (map application_id xs)"
    and "distinct (map (\<lambda>b. order_id (application_order b)) xs)"
    and "order_id (application_order a)
           \<notin> set (map (\<lambda>b. order_id (application_order b))
                    [b \<leftarrow> xs. application_id b \<noteq> application_id a])"
  shows "distinct (map (\<lambda>b. order_id (application_order b))
           (map (\<lambda>b. if application_id b = application_id a then a else b) xs))"
  using assms
proof (induction xs)
  case Nil
  then show ?case by simp
next
  case (Cons x xs)
  show ?case
  proof (cases "application_id x = application_id a")
    case True
    with distinct_map_head [OF Cons.prems(1)]
    have absent: "\<forall>b \<in> set xs. application_id b \<noteq> application_id a"
      by simp
    then have "[b \<leftarrow> xs. application_id b \<noteq> application_id a] = xs"
      by (simp add: filter_id_conv)
    with Cons.prems True show ?thesis
      by (simp add: update_absent [OF absent])
  next
    case False
    let ?upd = "map (\<lambda>b. if application_id b = application_id a then a else b) xs"
    from False Cons.prems(3)
    have xa: "order_id (application_order x) \<noteq> order_id (application_order a)"
      by auto
    have A: "order_id (application_order x)
        \<notin> set (map (\<lambda>b. order_id (application_order b)) ?upd)"
    proof
      assume "order_id (application_order x)
        \<in> set (map (\<lambda>b. order_id (application_order b)) ?upd)"
      from update_keys [OF this]
      have "order_id (application_order x) = order_id (application_order a)
            \<or> order_id (application_order x) \<in> set (map (\<lambda>b. order_id (application_order b)) xs)" .
      with xa Cons.prems(2) show False by simp
    qed
    from Cons False have B: "distinct (map (\<lambda>b. order_id (application_order b)) ?upd)"
      by simp
    have step: "map (\<lambda>b. if application_id b = application_id a then a else b) (x # xs) = x # ?upd"
      using False by simp
    have "distinct (map (\<lambda>b. order_id (application_order b)) (x # ?upd))"
      unfolding list.map(2) distinct.simps(2) using A B by blast
    then show ?thesis by (simp only: step)
  qed
qed

lemma reachable_invariant:
  assumes "reachable db"
  shows "distinct (map application_id (Application_objects db))
         \<and> distinct (map (\<lambda>b. order_id (application_order b)) (Application_objects db))"
  using assms
proof (induction rule: reachable.induct)
  case (no_applications db)
  then show ?case by simp
next
  case (created db a db')
  then show ?case
    by (auto simp: application_create_def split: if_splits)
next
  case (updated db a db')
  then show ?case
    using update_keeps_order_unique [of "Application_objects db" a]
    by (auto simp: application_update_def update_keeps_ids simp del: map_map split: if_splits)
next
  case (deleted db k)
  then show ?case
    by (simp add: application_delete_def distinct_map_filter)
next
  case (other_tables db db')
  then show ?case by simp
qed

text \<open>
  C9. In every reachable store no two application rows have the same order, so each order
  has at most one application; creating an application for an order that already has one
  fails with \<open>IntegrityError\<close> (and so leaves the store as it was).
\<close>

theorem application_order_unique:
  assumes "reachable db"
  shows "order_unique db
    \<and> (\<forall>order. length [a \<leftarrow> Application_objects db.
                         order_id (application_order a) = order_id order] \<le> 1)
    \<and> (\<forall>a \<in> set (Application_objects db). \<forall>b.
          order_id (application_order b) = order_id (application_order a)
          \<longrightarrow> application_create db b = Inl IntegrityError)"
proof -
  from reachable_invariant [OF assms]
  have d: "distinct (map (\<lambda>b. order_id (application_order b)) (Application_objects db))" by simp
  then have "order_unique db" by (simp add: order_unique_def)
  moreover have "length [a \<leftarrow> Application_objects db.
                         order_id (application_order a) = order_id order] \<le> 1" for order
    using distinct_key_count [OF d] .
  moreover have "application_create db b = Inl IntegrityError"
    if "a \<in> set (Application_objects db)"
      and "order_id (application_order b) = order_id (application_order a)" for a b
    using that by (auto simp: application_create_def)
  ultimately show ?thesis by blast
qed

theorem application_order_unique_witness:
  "reachable ex_db
   \<and> order_unique ex_db
   \<and> ex_application 2 (ex_o 3) ''CONF'' \<in> set (Application_objects ex_db)
   \<and> application_create ex_db (ex_application 3 (ex_o 3) ''WAIT'') = Inl IntegrityError"
proof -
  let ?a1 = "ex_application 1 (ex_o 2) ''WAIT''" and ?a2 = "ex_application 2 (ex_o 3) ''CONF''"
  have r0: "reachable (ex_db\<lparr>Application_objects := []\<rparr>)"
    by (rule reachable.no_applications) simp
  have c1: "application_create (ex_db\<lparr>Application_objects := []\<rparr>) ?a1
            = Inr (ex_db\<lparr>Application_objects := [?a1]\<rparr>)"
    by (simp add: application_create_def)
  have c2: "application_create (ex_db\<lparr>Application_objects := [?a1]\<rparr>) ?a2 = Inr ex_db"
    by (simp add: application_create_def ex_defs)
  have r: "reachable ex_db"
    by (rule reachable.created [OF reachable.created [OF r0 c1] c2])
  have a: "?a2 \<in> set (Application_objects ex_db)" by (simp add: ex_db_def)
  from application_order_unique [OF r] have u: "order_unique ex_db"
    and f: "\<forall>a \<in> set (Application_objects ex_db). \<forall>b.
          order_id (application_order b) = order_id (application_order a)
          \<longrightarrow> application_create ex_db b = Inl IntegrityError"
    by blast+
  from bspec [OF f a, THEN spec, of "ex_application 3 (ex_o 3) ''WAIT''"]
  have "application_create ex_db (ex_application 3 (ex_o 3) ''WAIT'') = Inl IntegrityError"
    by (simp add: ex_application_def)
  with u a r show ?thesis by simp
qed

section \<open>Lemmas on the decimal arithmetic\<close>

lemma ndigits_le: "0 < k \<Longrightarrow> n < 10 ^ k \<Longrightarrow> ndigits n \<le> k"
proof (induction n arbitrary: k rule: ndigits.induct)
  case (1 n)
  show ?case
  proof (cases "n < 10")
    case True
    with 1(2) show ?thesis by (simp add: ndigits.simps [of n])
  next
    case False
    with 1(3) have "1 < k" by (cases "k = 1") (use 1(2) in auto)
    then obtain j where k: "k = Suc j" and j: "0 < j" by (cases k) auto
    from 1(3) k have "n div 10 < 10 ^ j" by (simp add: less_mult_imp_div_less mult.commute)
    from 1(1) [OF False j this] False k show ?thesis by (simp add: ndigits.simps [of n])
  qed
qed

lemma ndigits_gt: "10 ^ k \<le> n \<Longrightarrow> k < ndigits n"
proof (induction n arbitrary: k rule: ndigits.induct)
  case (1 n)
  show ?case
  proof (cases "n < 10")
    case True
    with 1(2) have "(10::nat) ^ k < 10 ^ 1" by simp
    then have "k < 1" by (rule power_less_imp_less_exp [rotated]) simp
    then have "k = 0" by simp
    with True show ?thesis by (simp add: ndigits.simps [of n])
  next
    case False
    show ?thesis
    proof (cases k)
      case 0
      with False show ?thesis by (simp add: ndigits.simps [of n])
    next
      case (Suc j)
      with 1(2) have "10 ^ j \<le> n div 10" by (simp add: less_eq_div_iff_mult_less_eq mult.commute)
      from 1(1) [OF False this] False Suc show ?thesis by (simp add: ndigits.simps [of n])
    qed
  qed
qed

lemma ndigits_eq: "10 ^ k \<le> n \<Longrightarrow> n < 10 ^ Suc k \<Longrightarrow> ndigits n = Suc k"
  using ndigits_le [of "Suc k" n] ndigits_gt [of k n] by simp

lemma ndigits_pos: "0 < ndigits n"
  by (simp add: ndigits.simps [of n])

lemma dec_fix_small: "\<bar>dint d\<bar> < 10 ^ 28 \<Longrightarrow> dec_fix d = d"
proof -
  assume "\<bar>dint d\<bar> < 10 ^ 28"
  then have "nat \<bar>dint d\<bar> < 10 ^ 28" by (simp add: nat_less_iff)
  from ndigits_le [OF _ this] show ?thesis by (simp add: dec_fix_def prec_def Let_def)
qed

lemma round_half_even_bounds:
  "c div 10 ^ k \<le> round_half_even c k \<and> round_half_even c k \<le> c div 10 ^ k + 1"
  by (simp add: round_half_even_def Let_def)

lemma rat_round_half_even_div:
  "rat_round_half_even (of_nat c / 10 ^ k) = int (round_half_even c k)"
proof -
  define m :: nat where "m = 10 ^ k"
  define q where "q = c div m"
  define r where "r = c mod m"
  have m: "0 < m" by (simp add: m_def)
  have c: "c = q * m + r" by (simp add: q_def r_def)
  have x: "(of_nat c / 10 ^ k :: rat) = of_nat q + of_nat r / of_nat m"
    using m by (simp add: c m_def field_simps)
  have fl: "\<lfloor>of_nat c / 10 ^ k :: rat\<rfloor> = int q"
    using floor_divide_of_nat_eq [of c m, where ?'a = rat] by (simp add: m_def q_def)
  have fr: "(of_nat c / 10 ^ k :: rat) - of_int (int q) = of_nat r / of_nat m"
    using x by simp
  have lt: "(of_nat r / of_nat m :: rat) < 1 / 2 \<longleftrightarrow> 2 * r < m"
  proof -
    have "(of_nat r / of_nat m :: rat) < 1 / 2 \<longleftrightarrow> (of_nat (2 * r) :: rat) < of_nat m"
      using m by (simp add: field_simps)
    then show ?thesis by (simp only: of_nat_less_iff)
  qed
  have gt: "(of_nat r / of_nat m :: rat) > 1 / 2 \<longleftrightarrow> 2 * r > m"
  proof -
    have "(of_nat r / of_nat m :: rat) > 1 / 2 \<longleftrightarrow> (of_nat (2 * r) :: rat) > of_nat m"
      using m by (simp add: field_simps)
    then show ?thesis by (simp only: of_nat_less_iff)
  qed
  show ?thesis
    unfolding rat_round_half_even_def round_half_even_def Let_def fl fr
    unfolding m_def [symmetric] q_def [symmetric] r_def [symmetric] lt gt
    by simp
qed

lemma strip_zeros_value:
  "strip_zeros c e i = (c', e')
   \<Longrightarrow> (of_nat c' * 10 powi e' :: rat) = of_nat c * 10 powi e \<and> c' \<le> c"
proof (induction c e i rule: strip_zeros.induct)
  case (1 coeff e ideal_exp)
  show ?case
  proof (cases "e < ideal_exp \<and> coeff mod 10 = 0")
    case True
    with 1(2) have "strip_zeros (coeff div 10) (e + 1) ideal_exp = (c', e')"
      by (simp add: strip_zeros.simps [of coeff])
    from 1(1) [OF True this]
    have v: "(of_nat c' * 10 powi e' :: rat) = of_nat (coeff div 10) * 10 powi (e + 1)"
      and le: "c' \<le> coeff div 10" by simp_all
    from True have "coeff = coeff div 10 * 10" by presburger
    then have "(of_nat coeff :: rat) = of_nat (coeff div 10) * 10"
      by (metis of_nat_mult of_nat_numeral)
    with v have "(of_nat c' * 10 powi e' :: rat) = of_nat coeff * 10 powi e"
      by (simp add: power_int_add)
    with le show ?thesis by simp
  next
    case False
    with 1(2) show ?thesis by (simp add: strip_zeros.simps [of coeff])
  qed
qed

lemma strip_zeros_power:
  "e + int j \<le> i \<Longrightarrow> strip_zeros (c * 10 ^ j) e i = strip_zeros c (e + int j) i"
proof (induction j arbitrary: e)
  case 0
  then show ?case by simp
next
  case (Suc j)
  then have "e < i" by simp
  then have "strip_zeros (c * 10 ^ Suc j) e i = strip_zeros (c * 10 ^ j) (e + 1) i"
    by (subst strip_zeros.simps) simp
  also from Suc.prems have "\<dots> = strip_zeros c (e + 1 + int j) i"
    by (intro Suc.IH) simp
  also have "e + 1 + int j = e + int (Suc j)" by simp
  finally show ?case .
qed

lemma strip_zeros_exp: "strip_zeros c e i = (c', e') \<Longrightarrow> e \<le> e'"
proof (induction c e i rule: strip_zeros.induct)
  case (1 coeff e ideal_exp)
  show ?case
  proof (cases "e < ideal_exp \<and> coeff mod 10 = 0")
    case True
    with 1(2) have "strip_zeros (coeff div 10) (e + 1) ideal_exp = (c', e')"
      by (simp add: strip_zeros.simps [of coeff])
    from 1(1) [OF True this] show ?thesis by simp
  next
    case False
    with 1(2) show ?thesis by (simp add: strip_zeros.simps [of coeff])
  qed
qed

lemma rat_round_half_even_of_int: "rat_round_half_even (of_int n) = n"
  by (simp add: rat_round_half_even_def)

lemma round_places_zero: "round_places 0 n = 0"
  by (simp add: round_places_def rat_round_half_even_def)

lemma nat_less_power_of_rat:
  "(of_nat c :: rat) < 10 ^ k \<Longrightarrow> c < 10 ^ k"
proof -
  assume "(of_nat c :: rat) < 10 ^ k"
  then have "(of_nat c :: rat) < of_nat (10 ^ k)" by simp
  then show ?thesis by (simp only: of_nat_less_iff)
qed

lemma dec_truediv_million:
  assumes "0 \<le> R" and "R < 10 ^ 28"
  shows "\<exists>v. dec_truediv \<lparr>dint = R, dexp = - 2\<rparr> (Decimal 1000000) = Inr v
             \<and> dec_value v = of_int R / 10 ^ 8 \<and> - 8 \<le> dexp v \<and> 0 \<le> dint v"
proof (cases "R = 0")
  case True
  then show ?thesis
    by (simp add: dec_truediv_def Decimal_def dec_fix_small dec_value_def)
next
  case False
  define c where "c = nat R"
  with assms False have c: "0 < c" "c < 10 ^ 28" "R = int c" by (simp_all add: nat_less_iff)
  define shift where "shift = 30 - ndigits c"
  have nd: "ndigits c \<le> 28" using ndigits_le [of 28 c] c by simp
  have nm: "ndigits 1000000 = 7" by (simp add: ndigits.simps)
  have sh: "int (ndigits 1000000) - int (ndigits c) + int prec + 1 = int (6 + shift)"
    using nd by (simp add: nm prec_def shift_def)
  have q: "c * 10 ^ (6 + shift) div 1000000 = c * 10 ^ shift"
    and r: "c * 10 ^ (6 + shift) mod 1000000 = 0"
    by (simp_all add: power_add)
  obtain c' e' where st: "strip_zeros c (- 8) (- 2) = (c', e')" by fastforce
  have "strip_zeros (c * 10 ^ shift) (- 2 - int (6 + shift)) (- 2) = strip_zeros c (- 8) (- 2)"
    using strip_zeros_power [of "- 2 - int (6 + shift)" shift "- 2" c] by simp
  with st have st': "strip_zeros (c * 10 ^ shift) (- 2 - int (6 + shift)) (- 2) = (c', e')"
    by simp
  from strip_zeros_value [OF st] strip_zeros_exp [OF st]
  have v: "(of_nat c' * 10 powi e' :: rat) = of_nat c * 10 powi (- 8)"
    and le: "c' \<le> c" and e': "- 8 \<le> e'" by simp_all
  from le c have "\<bar>int c'\<bar> < 10 ^ 28" by simp
  then have fx: "dec_fix \<lparr>dint = int c', dexp = e'\<rparr> = \<lparr>dint = int c', dexp = e'\<rparr>"
    by (simp add: dec_fix_small)
  have "dec_truediv \<lparr>dint = R, dexp = - 2\<rparr> (Decimal 1000000) = Inr \<lparr>dint = int c', dexp = e'\<rparr>"
    using c(1)
    by (simp add: dec_truediv_def Decimal_def c(3) Let_def sh q r st' fx
        del: of_nat_add of_nat_numeral split del: if_split)
  moreover from v have "dec_value \<lparr>dint = int c', dexp = e'\<rparr> = of_int R / 10 ^ 8"
    by (simp add: dec_value_def c(3) power_int_minus_divide)
  ultimately show ?thesis using e' by simp
qed

lemma dec_round_exact:
  assumes "0 \<le> dint d" and "round_places (dec_value d) 2 < 10 ^ 26"
  shows "\<exists>r. dec_round d 2 = Inr r \<and> dexp r = - 2 \<and> 0 \<le> dint r \<and> dint r < 10 ^ 28
             \<and> dec_value r = round_places (dec_value d) 2"
proof (cases "dint d = 0")
  case True
  then show ?thesis
    by (simp add: dec_round_def dec_value_def round_places_zero)
next
  case False
  define c where "c = nat (dint d)"
  with assms(1) False have c: "0 < c" "dint d = int c" by simp_all
  show ?thesis
  proof (cases "- 2 \<le> dexp d")
    case True
    define j where "j = nat (dexp d + 2)"
    with True have j: "dexp d = int j - 2" by simp
    have val: "dec_value d * 10 ^ 2 = of_int (int (c * 10 ^ j))"
      by (simp add: dec_value_def c(2) j power_int_diff)
    then have rp: "round_places (dec_value d) 2 = of_int (int (c * 10 ^ j)) / 10 ^ 2"
      by (simp only: round_places_def rat_round_half_even_of_int)
    with assms(2) have "(of_nat (c * 10 ^ j) :: rat) < 10 ^ 28" by (simp add: field_simps)
    then have N: "c * 10 ^ j < 10 ^ 28" by (rule nat_less_power_of_rat)
    have jl: "j < 28"
    proof (rule ccontr)
      assume "\<not> j < 28"
      then have "28 \<le> j" by simp
      then have "(10::nat) ^ 28 \<le> 10 ^ j" by (rule power_increasing) simp
      also have "\<dots> \<le> c * 10 ^ j" using c(1) by simp
      finally show False using N by simp
    qed
    then have "28 - j + j = 28" by simp
    then have eq: "(10::nat) ^ 28 = 10 ^ (28 - j) * 10 ^ j" by (metis power_add)
    from N have "c * 10 ^ j < 10 ^ (28 - j) * 10 ^ j" by (simp only: eq)
    then have "c < 10 ^ (28 - j)" by (simp only: mult_less_cancel2)
    from ndigits_le [OF _ this] jl have nd: "ndigits c \<le> 28 - j" by simp
    from ndigits_le [OF _ N] have nN: "ndigits (c * 10 ^ j) \<le> 28" by simp
    have d: "d = \<lparr>dint = int c, dexp = int j - 2\<rparr>"
      using c(2) j by simp
    have resc: "dec_rescale \<lparr>dint = int c, dexp = int j - 2\<rparr> (- 2)
                = \<lparr>dint = int (c * 10 ^ j), dexp = - 2\<rparr>"
      using c(1) by (simp add: dec_rescale_def)
    have "dec_round \<lparr>dint = int c, dexp = int j - 2\<rparr> 2
          = Inr \<lparr>dint = int (c * 10 ^ j), dexp = - 2\<rparr>"
      unfolding dec_round_def Let_def resc using c(1) nd nN jl
      by (simp add: prec_def del: of_nat_mult of_nat_power)
    then have "dec_round d 2 = Inr \<lparr>dint = int (c * 10 ^ j), dexp = - 2\<rparr>"
      by (simp only: d [symmetric])
    moreover have "dec_value \<lparr>dint = int (c * 10 ^ j), dexp = - 2\<rparr> = round_places (dec_value d) 2"
      unfolding rp by (simp add: dec_value_def power_int_minus_divide)
    moreover from N have "int (c * 10 ^ j) < int (10 ^ 28)" by (simp only: of_nat_less_iff)
    then have "int (c * 10 ^ j) < 10 ^ 28" by simp
    ultimately show ?thesis by (simp del: of_nat_mult of_nat_power)
  next
    case False
    define k where "k = nat (- 2 - dexp d)"
    with False have k: "dexp d = - 2 - int k" "0 < k" by simp_all
    have "dec_value d * 10 ^ 2 = of_nat c / 10 ^ k"
      by (simp add: dec_value_def c(2) k power_int_diff power_int_minus_divide)
    then have rp: "round_places (dec_value d) 2 = of_int (int (round_half_even c k)) / 10 ^ 2"
      by (simp only: round_places_def rat_round_half_even_div)
    with assms(2) have "(of_nat (round_half_even c k) :: rat) < 10 ^ 28" by (simp add: field_simps)
    then have R: "round_half_even c k < 10 ^ 28" by (rule nat_less_power_of_rat)
    with round_half_even_bounds [of c k] have "c div 10 ^ k < 10 ^ 28" by simp
    then have "c < 10 ^ 28 * 10 ^ k" by (simp add: div_less_iff_less_mult)
    then have "c < 10 ^ (28 + k)" by (simp add: power_add)
    from ndigits_le [OF _ this] have nd: "ndigits c \<le> 28 + k" by simp
    from ndigits_le [OF _ R] have nR: "ndigits (round_half_even c k) \<le> 28" by simp
    have d: "d = \<lparr>dint = int c, dexp = - 2 - int k\<rparr>"
      using c(2) k(1) by simp
    have resc: "dec_rescale \<lparr>dint = int c, dexp = - 2 - int k\<rparr> (- 2)
                = \<lparr>dint = int (round_half_even c k), dexp = - 2\<rparr>"
      using c(1) k(2) by (simp add: dec_rescale_def)
    have "dec_round \<lparr>dint = int c, dexp = - 2 - int k\<rparr> 2
          = Inr \<lparr>dint = int (round_half_even c k), dexp = - 2\<rparr>"
      unfolding dec_round_def Let_def resc using c(1) nd nR
      by (simp add: prec_def)
    then have "dec_round d 2 = Inr \<lparr>dint = int (round_half_even c k), dexp = - 2\<rparr>"
      by (simp only: d [symmetric])
    moreover have "dec_value \<lparr>dint = int (round_half_even c k), dexp = - 2\<rparr>
                   = round_places (dec_value d) 2"
      unfolding rp by (simp add: dec_value_def power_int_minus_divide)
    ultimately show ?thesis using R by simp
  qed
qed

lemma round_places_of_hundredths: "round_places (of_int n / 10 ^ 2) 2 = of_int n / 10 ^ 2"
  by (simp add: round_places_def rat_round_half_even_of_int)

lemma cargo_product:
  assumes "decimal_field 10 1 l" and "decimal_field 10 1 w" and "decimal_field 10 1 d"
    and "0 < dint l" and "0 < dint w" and "0 < dint d"
    and "round_places (dec_value l * dec_value w * dec_value d) 2 < 10 ^ 26"
  shows "0 \<le> dint (dec_mul (dec_mul l w) d)
         \<and> round_places (dec_value (dec_mul (dec_mul l w) d)) 2
             = round_places (dec_value l * dec_value w * dec_value d) 2"
proof -
  define a b c where "a = nat (dint l)" and "b = nat (dint w)" and "c = nat (dint d)"
  with assms have l: "l = \<lparr>dint = int a, dexp = - 1\<rparr>" and w: "w = \<lparr>dint = int b, dexp = - 1\<rparr>"
    and d: "d = \<lparr>dint = int c, dexp = - 1\<rparr>"
    and pos: "0 < a" "0 < b" "0 < c" and lt: "a < 10 ^ 10" "b < 10 ^ 10"
    by (simp_all add: decimal_field_def nat_less_iff)
  define C where "C = a * b * c"
  have Cpos: "0 < C" using pos by (simp add: C_def)
  have "a * b < 10 ^ 10 * 10 ^ 10" using lt by (intro mult_strict_mono) simp_all
  then have "\<bar>int a * int b\<bar> < 10 ^ 28"
    by (simp add: abs_mult flip: of_nat_mult)
  then have lw: "dec_mul l w = \<lparr>dint = int a * int b, dexp = - 2\<rparr>"
    by (simp add: dec_mul_def l w dec_fix_small)
  have prod: "dec_mul (dec_mul l w) d = dec_fix \<lparr>dint = int C, dexp = - 3\<rparr>"
    unfolding lw by (simp add: dec_mul_def d C_def)
  have P: "dec_value l * dec_value w * dec_value d = of_nat C / 10 ^ 3"
    by (simp add: l w d dec_value_def C_def power_int_minus_divide)
  then have "dec_value l * dec_value w * dec_value d * 10 ^ 2 = of_nat C / 10 ^ 1"
    by simp
  then have rp: "round_places (dec_value l * dec_value w * dec_value d) 2
                 = of_int (int (round_half_even C 1)) / 10 ^ 2"
    by (simp only: round_places_def rat_round_half_even_div)
  with assms(7) have "(of_nat (round_half_even C 1) :: rat) < 10 ^ 28" by (simp add: field_simps)
  then have R: "round_half_even C 1 < 10 ^ 28" by (rule nat_less_power_of_rat)
  show ?thesis
  proof (cases "C < 10 ^ 28")
    case True
    then have "\<bar>int C\<bar> < 10 ^ 28"
      by (metis abs_of_nat of_nat_less_iff of_nat_numeral of_nat_power)
    then have "dec_mul (dec_mul l w) d = \<lparr>dint = int C, dexp = - 3\<rparr>"
      by (simp add: prod dec_fix_small)
    moreover have "dec_value \<lparr>dint = int C, dexp = - 3\<rparr>
                   = dec_value l * dec_value w * dec_value d"
      unfolding P by (simp add: dec_value_def power_int_minus_divide)
    ultimately show ?thesis by simp
  next
    case False
    then have lo: "10 ^ 28 \<le> C" by simp
    from R round_half_even_bounds [of C 1] have "C div 10 ^ 1 < 10 ^ 28" by simp
    then have "C < 10 ^ 28 * 10 ^ 1" by (simp only: div_less_iff_less_mult zero_less_power zero_less_numeral)
    then have hi: "C < 10 ^ Suc 28" by simp
    from ndigits_eq [OF lo hi] have nC: "ndigits C = 29" by simp
    from ndigits_le [OF _ R] have nR: "ndigits (round_half_even C 1) \<le> 28" by simp
    have "dec_fix \<lparr>dint = int C, dexp = - 3\<rparr> = \<lparr>dint = int (round_half_even C 1), dexp = - 2\<rparr>"
      using Cpos nR by (simp add: dec_fix_def Let_def prec_def nC)
    with prod have "dec_mul (dec_mul l w) d = \<lparr>dint = int (round_half_even C 1), dexp = - 2\<rparr>"
      by simp
    moreover have "dec_value \<lparr>dint = int (round_half_even C 1), dexp = - 2\<rparr>
                   = of_int (int (round_half_even C 1)) / 10 ^ 2"
      by (simp add: dec_value_def power_int_minus_divide)
    ultimately show ?thesis
      by (simp only: rp round_places_of_hundredths) simp
  qed
qed

lemma dec_value_units:
  assumes "- 8 \<le> dexp d"
  shows "dec_value d = of_int (dec_units d) / 10 ^ 8"
proof -
  have "(10::rat) powi dexp d = 10 powi ((dexp d + 8) - 8)" by simp
  also have "\<dots> = 10 powi (dexp d + 8) / 10 powi 8"
    by (rule power_int_diff) simp
  also have "\<dots> = 10 ^ nat (dexp d + 8) / 10 ^ 8"
    using assms by (simp add: power_int_nonneg_exp)
  finally show ?thesis by (simp add: dec_value_def dec_units_def)
qed

lemma dec_add_exact:
  assumes "- 8 \<le> dexp a" and "- 8 \<le> dexp b" and "0 \<le> dint a" and "0 \<le> dint b"
    and "dec_units a + dec_units b < 10 ^ 28"
  shows "dec_units (dec_add a b) = dec_units a + dec_units b
         \<and> - 8 \<le> dexp (dec_add a b) \<and> 0 \<le> dint (dec_add a b)"
proof -
  define e where "e = min (dexp a) (dexp b)"
  define C where "C = dint a * 10 ^ nat (dexp a - e) + dint b * 10 ^ nat (dexp b - e)"
  have e: "- 8 \<le> e" "e \<le> dexp a" "e \<le> dexp b" using assms(1,2) by (simp_all add: e_def)
  have ea: "nat (dexp a - e) + nat (e + 8) = nat (dexp a + 8)"
    and eb: "nat (dexp b - e) + nat (e + 8) = nat (dexp b + 8)"
    using e by simp_all
  have u: "C * 10 ^ nat (e + 8) = dec_units a + dec_units b"
    by (simp add: C_def dec_units_def distrib_right mult.assoc flip: power_add ea eb)
  have C0: "0 \<le> C" using assms(3,4) by (simp add: C_def)
  have "C * 1 \<le> C * 10 ^ nat (e + 8)" using C0 by (intro mult_left_mono) simp_all
  with u assms(5) have "\<bar>C\<bar> < 10 ^ 28" using C0 by simp
  then have "dec_fix \<lparr>dint = C, dexp = e\<rparr> = \<lparr>dint = C, dexp = e\<rparr>"
    by (simp add: dec_fix_small)
  then have "dec_add a b = \<lparr>dint = C, dexp = e\<rparr>"
    by (simp add: dec_add_def Let_def C_def e_def)
  with u C0 e(1) show ?thesis by (simp add: dec_units_def)
qed

lemma foldl_py_add_exact:
  assumes "\<forall>v \<in> set vs. - 8 \<le> dexp v \<and> 0 \<le> dint v"
    and "- 8 \<le> dexp (to_dec acc)" and "0 \<le> dint (to_dec acc)"
    and "dec_units (to_dec acc) + sum_list (map dec_units vs) < 10 ^ 28"
  shows "dec_units (to_dec (foldl py_add acc (map PyDec vs)))
           = dec_units (to_dec acc) + sum_list (map dec_units vs)
         \<and> - 8 \<le> dexp (to_dec (foldl py_add acc (map PyDec vs)))
         \<and> 0 \<le> dint (to_dec (foldl py_add acc (map PyDec vs)))
         \<and> (vs = [] \<or> (\<exists>d. foldl py_add acc (map PyDec vs) = PyDec d))"
  using assms
proof (induction vs arbitrary: acc)
  case Nil
  then show ?case by simp
next
  case (Cons v vs)
  have step: "py_add acc (PyDec v) = PyDec (dec_add (to_dec acc) v)"
    by (cases acc) simp_all
  have nonneg: "0 \<le> sum_list (map dec_units vs)"
    using Cons.prems(1) by (intro sum_list_nonneg) (auto simp: dec_units_def)
  from Cons.prems have v: "- 8 \<le> dexp v" "0 \<le> dint v" by simp_all
  from Cons.prems(4) nonneg have "dec_units (to_dec acc) + dec_units v < 10 ^ 28" by simp
  from dec_add_exact [OF Cons.prems(2) v(1) Cons.prems(3) v(2) this]
  have a: "dec_units (dec_add (to_dec acc) v) = dec_units (to_dec acc) + dec_units v"
    and b: "- 8 \<le> dexp (dec_add (to_dec acc) v)" and c: "0 \<le> dint (dec_add (to_dec acc) v)"
    by simp_all
  have "dec_units (to_dec (PyDec (dec_add (to_dec acc) v))) + sum_list (map dec_units vs) < 10 ^ 28"
    using Cons.prems(4) a by simp
  from Cons.IH [of "PyDec (dec_add (to_dec acc) v)", OF _ _ _ this] Cons.prems(1) b c
  have IH: "dec_units (to_dec (foldl py_add (PyDec (dec_add (to_dec acc) v)) (map PyDec vs)))
           = dec_units (dec_add (to_dec acc) v) + sum_list (map dec_units vs)
         \<and> - 8 \<le> dexp (to_dec (foldl py_add (PyDec (dec_add (to_dec acc) v)) (map PyDec vs)))
         \<and> 0 \<le> dint (to_dec (foldl py_add (PyDec (dec_add (to_dec acc) v)) (map PyDec vs)))
         \<and> (vs = [] \<or> (\<exists>d. foldl py_add (PyDec (dec_add (to_dec acc) v)) (map PyDec vs) = PyDec d))"
    by simp
  show ?case
    using IH a by (auto simp: step)
qed

lemma cargo_volume_exact:
  assumes "cargo_fits self"
  shows "\<exists>v. cargo_volume self = Inr v \<and> dec_value v = spec_cargo_volume self
             \<and> - 8 \<le> dexp v \<and> 0 \<le> dint v"
proof -
  let ?p = "dec_mul (dec_mul (cargo_len self) (cargo_width self)) (cargo_depth self)"
  let ?P = "dec_value (cargo_len self) * dec_value (cargo_width self) * dec_value (cargo_depth self)"
  from assms have f: "decimal_field 10 1 (cargo_len self)" "decimal_field 10 1 (cargo_width self)"
    "decimal_field 10 1 (cargo_depth self)"
    "0 < dint (cargo_len self)" "0 < dint (cargo_width self)" "0 < dint (cargo_depth self)"
    and b: "round_places ?P 2 < 10 ^ 26"
    by (simp_all add: cargo_fits_def)
  from cargo_product [OF f b]
  have p0: "0 \<le> dint ?p" and pv: "round_places (dec_value ?p) 2 = round_places ?P 2"
    by simp_all
  from b pv have "round_places (dec_value ?p) 2 < 10 ^ 26" by simp
  from dec_round_exact [OF p0 this] obtain r where r: "dec_round ?p 2 = Inr r"
    and re: "dexp r = - 2" and r0: "0 \<le> dint r" and rl: "dint r < 10 ^ 28"
    and rv: "dec_value r = round_places (dec_value ?p) 2" by blast
  from re have rr: "r = \<lparr>dint = dint r, dexp = - 2\<rparr>" by simp
  from dec_truediv_million [OF r0 rl] rr obtain v
    where v: "dec_truediv r (Decimal 1000000) = Inr v"
      and vv: "dec_value v = of_int (dint r) / 10 ^ 8" and ve: "- 8 \<le> dexp v" and v0: "0 \<le> dint v"
    by metis
  have "dec_value r = of_int (dint r) / 10 ^ 2"
    by (subst rr) (simp add: dec_value_def power_int_minus_divide)
  with vv have "dec_value v = dec_value r / 1000000" by simp
  with rv pv have "dec_value v = spec_cargo_volume self" by (simp add: spec_cargo_volume_def)
  moreover have "cargo_volume self = Inr v" by (simp add: cargo_volume_def r v)
  ultimately show ?thesis using ve v0 by simp
qed

lemma cargo_volumes_exact:
  assumes "\<forall>order \<in> set os. cargo_fits order"
  shows "\<exists>vs. cargo_volumes os = Inr vs \<and> map dec_value vs = map spec_cargo_volume os
              \<and> (\<forall>v \<in> set vs. - 8 \<le> dexp v \<and> 0 \<le> dint v)"
  using assms
proof (induction os)
  case Nil
  then show ?case by simp
next
  case (Cons x xs)
  from Cons.prems have "cargo_fits x" by simp
  from cargo_volume_exact [OF this] obtain v where v: "cargo_volume x = Inr v"
    "dec_value v = spec_cargo_volume x" "- 8 \<le> dexp v" "0 \<le> dint v" by blast
  from Cons obtain vs where vs: "cargo_volumes xs = Inr vs"
    "map dec_value vs = map spec_cargo_volume xs" "\<forall>v \<in> set vs. - 8 \<le> dexp v \<and> 0 \<le> dint v"
    by auto
  from v vs show ?case by simp
qed

lemma rat_round_half_even_le: "of_int (rat_round_half_even x) \<le> x + 1"
proof -
  have "rat_round_half_even x \<le> \<lfloor>x\<rfloor> + 1" by (simp add: rat_round_half_even_def Let_def)
  then have "(of_int (rat_round_half_even x) :: rat) \<le> of_int (\<lfloor>x\<rfloor> + 1)"
    by (simp only: of_int_le_iff)
  also have "\<dots> \<le> x + 1" by simp
  finally show ?thesis .
qed

lemma round_places_le: "round_places x 2 \<le> x + 1 / 100"
  using rat_round_half_even_le [of "x * 10 ^ 2"] by (simp add: round_places_def field_simps)

lemma sum_units:
  assumes "\<forall>v \<in> set vs. - 8 \<le> dexp v"
  shows "(of_int (sum_list (map dec_units vs)) :: rat) = sum_list (map dec_value vs) * 10 ^ 8"
  using assms by (induction vs) (simp_all add: dec_value_units distrib_right)

lemma dec_sub_exact:
  assumes "dexp a = - 2" and "\<bar>dint a\<bar> < 10 ^ 10" and "- 2 \<le> dexp b" and "0 \<le> dint b"
    and "dec_value b < 10 ^ 25"
  shows "dec_value (dec_sub a b) = dec_value a - dec_value b"
proof -
  define j where "j = nat (dexp b + 2)"
  with assms(3) have j: "dexp b = int j - 2" by simp
  define N where "N = dint b * 10 ^ j"
  have N0: "0 \<le> N" using assms(4) by (simp add: N_def)
  have bv: "dec_value b = of_int N / 10 ^ 2"
    by (simp add: dec_value_def j N_def power_int_diff)
  with assms(5) have "(of_int N :: rat) < of_int (10 ^ 27)" by (simp add: field_simps)
  then have "N < 10 ^ 27" by (simp only: of_int_less_iff)
  with N0 assms(2) have "\<bar>dint a - N\<bar> < 10 ^ 28" by simp
  then have "dec_fix \<lparr>dint = dint a - N, dexp = - 2\<rparr> = \<lparr>dint = dint a - N, dexp = - 2\<rparr>"
    by (simp add: dec_fix_small)
  moreover have "min (dexp a) (dexp b) = - 2" using assms(1,3) by simp
  ultimately have "dec_sub a b = \<lparr>dint = dint a - N, dexp = - 2\<rparr>"
    by (simp add: dec_sub_def dec_add_def Let_def assms(1) j N_def)
  then have sv: "dec_value (dec_sub a b) = of_int (dint a - N) / 10 ^ 2"
    by (simp add: dec_value_def power_int_minus_divide)
  have av: "dec_value a = of_int (dint a) / 10 ^ 2"
    by (simp add: dec_value_def assms(1) power_int_minus_divide)
  show ?thesis
    unfolding sv av bv by (simp add: diff_divide_distrib)
qed

lemma free_volume_exact:
  assumes "decimal_field 10 2 (total_volume self)"
    and "\<forall>order \<in> set (orders self). cargo_fits order"
    and "sum_list (map spec_cargo_volume (orders self)) < 10 ^ 20"
  shows "\<exists>v. free_volume self = Inr v
             \<and> dec_value v = dec_value (total_volume self)
                 - round_places (sum_list (map spec_cargo_volume (orders self))) 2"
proof -
  define S where "S = sum_list (map spec_cargo_volume (orders self))"
  from assms(1) have te: "dexp (total_volume self) = - 2" and tl: "\<bar>dint (total_volume self)\<bar> < 10 ^ 10"
    by (simp_all add: decimal_field_def)
  from cargo_volumes_exact [OF assms(2)] obtain vs
    where vs: "cargo_volumes (orders self) = Inr vs"
      and vals: "map dec_value vs = map spec_cargo_volume (orders self)"
      and ok: "\<forall>v \<in> set vs. - 8 \<le> dexp v \<and> 0 \<le> dint v" by blast
  from vals have Sv: "sum_list (map dec_value vs) = S" by (simp add: S_def)
  define U where "U = sum_list (map dec_units vs)"
  from ok have "\<forall>v \<in> set vs. - 8 \<le> dexp v" by simp
  from sum_units [OF this] have UU: "(of_int U :: rat) = S * 10 ^ 8" by (simp add: U_def Sv)
  with assms(3) have "(of_int U :: rat) < of_int (10 ^ 28)" by (simp add: S_def)
  then have Ul: "U < 10 ^ 28" by (simp only: of_int_less_iff)
  define r where "r = py_sum (map PyDec vs)"
  have "dec_units (to_dec (PyInt 0)) + sum_list (map dec_units vs) < 10 ^ 28"
    using Ul by (simp add: U_def dec_units_def Decimal_def)
  from foldl_py_add_exact [OF ok _ _ this]
  have ru: "dec_units (to_dec r) = U" and re: "- 8 \<le> dexp (to_dec r)" and r0: "0 \<le> dint (to_dec r)"
    and shape: "vs = [] \<or> (\<exists>d. r = PyDec d)"
    by (simp_all add: r_def py_sum_def U_def dec_units_def Decimal_def)
  from dec_value_units [OF re] ru UU have rv: "dec_value (to_dec r) = S" by simp
  have Sb: "round_places S 2 < 10 ^ 25"
    using round_places_le [of S] assms(3) by (simp add: S_def)
  have "\<exists>q. py_round r 2 = Inr q \<and> - 2 \<le> dexp (to_dec q) \<and> 0 \<le> dint (to_dec q)
            \<and> dec_value (to_dec q) = round_places S 2"
  proof (cases "vs = []")
    case True
    then have "r = PyInt 0" by (simp add: r_def py_sum_def)
    moreover from True Sv have "S = 0" by simp
    ultimately show ?thesis
      by (simp add: Decimal_def dec_value_def round_places_zero)
  next
    case False
    with shape obtain d where d: "r = PyDec d" by blast
    with r0 rv have d0: "0 \<le> dint d" and dv: "dec_value d = S" by simp_all
    from Sb dv have "round_places (dec_value d) 2 < 10 ^ 26" by simp
    from dec_round_exact [OF d0 this] dv d show ?thesis by auto
  qed
  then obtain q where q: "py_round r 2 = Inr q" and qe: "- 2 \<le> dexp (to_dec q)"
    and q0: "0 \<le> dint (to_dec q)" and qv: "dec_value (to_dec q) = round_places S 2" by blast
  from Sb qv have "dec_value (to_dec q) < 10 ^ 25" by simp
  from dec_sub_exact [OF te tl qe q0 this] qv
  have "dec_value (dec_sub (total_volume self) (to_dec q))
        = dec_value (total_volume self) - round_places S 2" by simp
  moreover have "free_volume self = Inr (dec_sub (total_volume self) (to_dec q))"
    using q by (simp add: free_volume_def vs Let_def r_def)
  ultimately show ?thesis by (simp add: S_def)
qed

lemmas ndigits_eval = ndigits.simps [of "numeral v"] ndigits.simps [of 0] ndigits.simps [of "Suc 0"] for v

lemmas strip_zeros_eval = strip_zeros.simps [of "numeral v"] strip_zeros.simps [of 0] strip_zeros.simps [of "Suc 0"] for v

lemmas dec_eval = dec_mul_def dec_fix_def dec_round_def dec_rescale_def
     dec_truediv_def Decimal_def ndigits_eval strip_zeros_eval prec_def round_half_even_def Let_def

lemmas spec_eval = round_places_def rat_round_half_even_def dec_value_def decimal_field_def Let_def

lemma ex_dims_fields:
  "cargo_len (ex_dims l w d) = \<lparr>dint = l, dexp = - 1\<rparr>"
  "cargo_width (ex_dims l w d) = \<lparr>dint = w, dexp = - 1\<rparr>"
  "cargo_depth (ex_dims l w d) = \<lparr>dint = d, dexp = - 1\<rparr>"
  by (simp_all add: ex_dims_def ex_order_def)

lemma cargo_volume_ex_100_50_20:
  "cargo_volume (ex_dims 1000 500 200) = Inr \<lparr>dint = 10, dexp = - 2\<rparr>"
  by (simp add: cargo_volume_def ex_dims_fields dec_eval split del: if_split)

lemma cargo_volume_ex_100_50_40:
  "cargo_volume (ex_dims 1000 500 400) = Inr \<lparr>dint = 20, dexp = - 2\<rparr>"
  by (simp add: cargo_volume_def ex_dims_fields dec_eval split del: if_split)

lemma cargo_volume_ex_20m3:
  "cargo_volume (ex_dims 1000 500 40000) = Inr \<lparr>dint = 2000, dexp = - 2\<rparr>"
  by (simp add: cargo_volume_def ex_dims_fields dec_eval split del: if_split)

lemma cargo_volume_ex_cube:
  "cargo_volume (ex_dims 15 15 15) = Inr \<lparr>dint = 338, dexp = - 8\<rparr>"
  by (simp add: cargo_volume_def ex_dims_fields dec_eval split del: if_split)

lemma round_after_scaling_ex_cube:
  "round_places (dec_value \<lparr>dint = 15, dexp = - 1\<rparr> * dec_value \<lparr>dint = 15, dexp = - 1\<rparr>
                 * dec_value \<lparr>dint = 15, dexp = - 1\<rparr> / 1000000) 2 = 0"
proof -
  have "dec_value \<lparr>dint = 15, dexp = - 1\<rparr> * dec_value \<lparr>dint = 15, dexp = - 1\<rparr>
          * dec_value \<lparr>dint = 15, dexp = - 1\<rparr> / 1000000 * 10 ^ 2 = of_nat 3375 / 10 ^ 7"
    by (simp add: dec_value_def)
  then show ?thesis
    by (simp only: round_places_def rat_round_half_even_div) (simp add: round_half_even_def)
qed

lemma cargo_fits_ex:
  "cargo_fits (ex_dims 1000 500 200)" "cargo_fits (ex_dims 1000 500 400)"
  "cargo_fits (ex_dims 1000 500 40000)"
  by (simp_all add: cargo_fits_def ex_dims_fields spec_eval)

lemma spec_cargo_volume_ex:
  "spec_cargo_volume (ex_dims 1000 500 200) = 1 / 10"
  "spec_cargo_volume (ex_dims 1000 500 400) = 2 / 10"
  "spec_cargo_volume (ex_dims 1000 500 40000) = 20"
  by (simp_all add: spec_cargo_volume_def ex_dims_fields spec_eval)

lemma free_volume_ex:
  "free_volume (ex_sending 1 [ex_dims 1000 500 200, ex_dims 1000 500 400])
     = Inr \<lparr>dint = 970, dexp = - 2\<rparr>"
  "free_volume (ex_sending 1 [ex_dims 1000 500 40000]) = Inr \<lparr>dint = - 1000, dexp = - 2\<rparr>"
  "free_volume (ex_sending 1 []) = Inr \<lparr>dint = 1000, dexp = - 2\<rparr>"
  by (simp_all add: free_volume_def cargo_volume_ex_100_50_20 cargo_volume_ex_100_50_40
      cargo_volume_ex_20m3 ex_sending_def py_sum_def dec_add_def dec_sub_def dec_eval
      split del: if_split)

lemma dec_round_too_long:
  assumes "0 < c" and "int prec < int (ndigits c) + e + 2"
  shows "dec_round \<lparr>dint = int c, dexp = e\<rparr> 2 = Inl InvalidOperation"
  using assms by (simp add: dec_round_def)

lemma cargo_volume_overflow:
  assumes "decimal_field 10 1 (cargo_len self)" and "decimal_field 10 1 (cargo_width self)"
    and "decimal_field 10 1 (cargo_depth self)"
    and "0 < dint (cargo_len self)" and "0 < dint (cargo_width self)" and "0 < dint (cargo_depth self)"
    and "10 ^ 26 \<le> round_places (dec_value (cargo_len self) * dec_value (cargo_width self)
                                  * dec_value (cargo_depth self)) 2"
  shows "cargo_volume self = Inl InvalidOperation"
proof -
  define l w d where "l = cargo_len self" and "w = cargo_width self" and "d = cargo_depth self"
  define a b c where "a = nat (dint l)" and "b = nat (dint w)" and "c = nat (dint d)"
  with assms l_def w_def d_def
  have l: "l = \<lparr>dint = int a, dexp = - 1\<rparr>" and w: "w = \<lparr>dint = int b, dexp = - 1\<rparr>"
    and d: "d = \<lparr>dint = int c, dexp = - 1\<rparr>"
    and pos: "0 < a" "0 < b" "0 < c" and lt: "a < 10 ^ 10" "b < 10 ^ 10" "c < 10 ^ 10"
    by (simp_all add: decimal_field_def nat_less_iff)
  define C where "C = a * b * c"
  have Cpos: "0 < C" using pos by (simp add: C_def)
  have ab: "a * b < 10 ^ 10 * 10 ^ 10" using lt by (intro mult_strict_mono) simp_all
  then have "a * b * c < (10 ^ 10 * 10 ^ 10) * 10 ^ 10" using lt by (intro mult_strict_mono) simp_all
  then have hi: "C < 10 ^ 30" by (simp add: C_def)
  from ab have "\<bar>int a * int b\<bar> < 10 ^ 28"
    by (simp add: abs_mult flip: of_nat_mult)
  then have lw: "dec_mul l w = \<lparr>dint = int a * int b, dexp = - 2\<rparr>"
    by (simp add: dec_mul_def l w dec_fix_small)
  have prod: "dec_mul (dec_mul l w) d = dec_fix \<lparr>dint = int C, dexp = - 3\<rparr>"
    unfolding lw by (simp add: dec_mul_def d C_def)
  have "dec_value l * dec_value w * dec_value d * 10 ^ 2 = of_nat C / 10 ^ 1"
    by (simp add: l w d dec_value_def C_def power_int_minus_divide)
  then have rp: "round_places (dec_value l * dec_value w * dec_value d) 2
                 = of_int (int (round_half_even C 1)) / 10 ^ 2"
    by (simp only: round_places_def rat_round_half_even_div)
  with assms(7) have "(of_nat (10 ^ 28) :: rat) \<le> of_nat (round_half_even C 1)"
    by (simp add: l_def w_def d_def field_simps)
  then have R: "10 ^ 28 \<le> round_half_even C 1" by (simp only: of_nat_le_iff)
  have "dec_round (dec_fix \<lparr>dint = int C, dexp = - 3\<rparr>) 2 = Inl InvalidOperation"
  proof (cases "C < 10 ^ 29")
    case True
    with round_half_even_bounds [of C 1] R have "C div 10 ^ 1 + 1 \<ge> 10 ^ 28" by simp
    then have lo: "10 ^ 28 \<le> C" by simp
    from True have "C div 10 ^ 1 < 10 ^ 28" by simp
    with round_half_even_bounds [of C 1] R have Req: "round_half_even C 1 = 10 ^ 28" by simp
    from True have "C < 10 ^ Suc 28" by simp
    from ndigits_eq [OF lo this] have nC: "ndigits C = 29" by simp
    have n28: "ndigits (10 ^ 28) = 29" by (rule ndigits_eq [of 28, simplified]) simp_all
    have n27: "ndigits (10 ^ 27) = 28" by (rule ndigits_eq [of 27, simplified]) simp_all
    have "dec_fix \<lparr>dint = int C, dexp = - 3\<rparr> = \<lparr>dint = int (10 ^ 27), dexp = - 1\<rparr>"
      using Cpos Req n28 by (simp add: dec_fix_def Let_def prec_def nC)
    moreover have "dec_round \<lparr>dint = int (10 ^ 27), dexp = - 1\<rparr> 2 = Inl InvalidOperation"
      by (rule dec_round_too_long) (use n27 in \<open>simp_all add: prec_def\<close>)
    ultimately show ?thesis by simp
  next
    case False
    then have lo: "10 ^ 29 \<le> C" by simp
    from hi have "C < 10 ^ Suc 29" by simp
    from ndigits_eq [OF lo this] have nC: "ndigits C = 30" by simp
    define r where "r = round_half_even C 2"
    from lo have "10 ^ 27 \<le> C div 10 ^ 2" by simp
    with round_half_even_bounds [of C 2] have rlo: "10 ^ 27 \<le> r" by (simp add: r_def)
    from hi have "C div 10 ^ 2 < 10 ^ 28" by simp
    with round_half_even_bounds [of C 2] have rhi: "r \<le> 10 ^ 28" by (simp add: r_def)
    have n27: "ndigits (10 ^ 27) = 28" by (rule ndigits_eq [of 27, simplified]) simp_all
    show ?thesis
    proof (cases "r = 10 ^ 28")
      case True
      have n28: "ndigits (10 ^ 28) = 29" by (rule ndigits_eq [of 28, simplified]) simp_all
      have "dec_fix \<lparr>dint = int C, dexp = - 3\<rparr> = \<lparr>dint = int (10 ^ 27), dexp = 0\<rparr>"
        using Cpos True n28 by (simp add: dec_fix_def Let_def prec_def nC r_def [symmetric])
      moreover have "dec_round \<lparr>dint = int (10 ^ 27), dexp = 0\<rparr> 2 = Inl InvalidOperation"
        by (rule dec_round_too_long) (use n27 in \<open>simp_all add: prec_def\<close>)
      ultimately show ?thesis by simp
    next
      case False
      with rhi have "r < 10 ^ Suc 27" by simp
      from ndigits_eq [OF rlo this] have nr: "ndigits r = 28" by simp
      from rlo have r0: "0 < r" by simp
      have "dec_fix \<lparr>dint = int C, dexp = - 3\<rparr> = \<lparr>dint = int r, dexp = - 1\<rparr>"
        using Cpos by (simp add: dec_fix_def Let_def prec_def nC r_def [symmetric] nr)
      moreover have "dec_round \<lparr>dint = int r, dexp = - 1\<rparr> 2 = Inl InvalidOperation"
        by (rule dec_round_too_long) (simp_all add: r0 nr prec_def)
      ultimately show ?thesis by simp
    qed
  qed
  then show ?thesis
    by (simp add: cargo_volume_def prod [unfolded l_def w_def d_def])
qed

lemma round_places_ex_huge:
  "round_places (dec_value (cargo_len (ex_dims 9999999999 9999999999 9999999999))
                 * dec_value (cargo_width (ex_dims 9999999999 9999999999 9999999999))
                 * dec_value (cargo_depth (ex_dims 9999999999 9999999999 9999999999))) 2
   = 99999999970000000003 * 10 ^ 7"
proof -
  have "dec_value (cargo_len (ex_dims 9999999999 9999999999 9999999999))
          * dec_value (cargo_width (ex_dims 9999999999 9999999999 9999999999))
          * dec_value (cargo_depth (ex_dims 9999999999 9999999999 9999999999)) * 10 ^ 2
        = of_nat (9999999999 * 9999999999 * 9999999999) / 10 ^ 1"
    by (simp add: ex_dims_fields dec_value_def)
  then show ?thesis
    by (simp only: round_places_def rat_round_half_even_div) (simp add: round_half_even_def)
qed

section \<open>Lemmas on the float arithmetic\<close>




































section \<open>Properties of cargo_volume and free_volume\<close>

text \<open>
  C3 (amended). For every Order whose three dimensions are positive values of their fields
  (one decimal place, at most ten digits): when the product rounds to less than \<open>10 ^ 26\<close>
  cubic centimetres, \<open>cargo_volume\<close> returns \<open>round(len * width * depth, 2)\<close> divided by
  1,000,000, the rounding being applied to the product before the division; when it rounds
  to \<open>10 ^ 26\<close> or more, \<open>cargo_volume\<close> raises \<open>InvalidOperation\<close>. Dimensions
  (100, 50, 20) give 0.1, and for (1.5, 1.5, 1.5) the result 0.00000338 is not the quotient
  rounded to two places.
\<close>

theorem cargo_volume_rounds_before_scaling:
  assumes "decimal_field 10 1 (cargo_len self)" and "decimal_field 10 1 (cargo_width self)"
    and "decimal_field 10 1 (cargo_depth self)"
    and "0 < dint (cargo_len self)" and "0 < dint (cargo_width self)" and "0 < dint (cargo_depth self)"
  shows "(round_places (dec_value (cargo_len self) * dec_value (cargo_width self)
                        * dec_value (cargo_depth self)) 2 < 10 ^ 26
          \<longrightarrow> (\<exists>v. cargo_volume self = Inr v
                \<and> dec_value v = round_places (dec_value (cargo_len self) * dec_value (cargo_width self)
                                              * dec_value (cargo_depth self)) 2 / 1000000))
    \<and> (10 ^ 26 \<le> round_places (dec_value (cargo_len self) * dec_value (cargo_width self)
                                 * dec_value (cargo_depth self)) 2
          \<longrightarrow> cargo_volume self = Inl InvalidOperation)
    \<and> (\<exists>v. cargo_volume (ex_dims 1000 500 200) = Inr v \<and> dec_value v = 1 / 10)
    \<and> (\<exists>v. cargo_volume (ex_dims 15 15 15) = Inr v
            \<and> dec_value v \<noteq> round_places (dec_value (cargo_len (ex_dims 15 15 15))
                                            * dec_value (cargo_width (ex_dims 15 15 15))
                                            * dec_value (cargo_depth (ex_dims 15 15 15)) / 1000000) 2)"
proof (intro conjI impI)
  assume "round_places (dec_value (cargo_len self) * dec_value (cargo_width self)
                        * dec_value (cargo_depth self)) 2 < 10 ^ 26"
  with assms have "cargo_fits self" by (simp add: cargo_fits_def)
  from cargo_volume_exact [OF this]
  show "\<exists>v. cargo_volume self = Inr v
             \<and> dec_value v = round_places (dec_value (cargo_len self) * dec_value (cargo_width self)
                                           * dec_value (cargo_depth self)) 2 / 1000000"
    by (auto simp: spec_cargo_volume_def)
next
  assume "10 ^ 26 \<le> round_places (dec_value (cargo_len self) * dec_value (cargo_width self)
                                 * dec_value (cargo_depth self)) 2"
  from cargo_volume_overflow [OF assms this]
  show "cargo_volume self = Inl InvalidOperation" .
next
  show "\<exists>v. cargo_volume (ex_dims 1000 500 200) = Inr v \<and> dec_value v = 1 / 10"
    by (simp add: cargo_volume_ex_100_50_20 dec_value_def)
next
  show "\<exists>v. cargo_volume (ex_dims 15 15 15) = Inr v
            \<and> dec_value v \<noteq> round_places (dec_value (cargo_len (ex_dims 15 15 15))
                                            * dec_value (cargo_width (ex_dims 15 15 15))
                                            * dec_value (cargo_depth (ex_dims 15 15 15)) / 1000000) 2"
    unfolding ex_dims_fields round_after_scaling_ex_cube
    by (simp add: cargo_volume_ex_cube dec_value_def)
qed

text \<open>The witness: the order with dimensions (100.0, 50.0, 20.0), and the order with
  three dimensions of 999999999.9.\<close>

theorem cargo_volume_rounds_before_scaling_witness:
  "decimal_field 10 1 (cargo_len (ex_dims 1000 500 200))
   \<and> decimal_field 10 1 (cargo_width (ex_dims 1000 500 200))
   \<and> decimal_field 10 1 (cargo_depth (ex_dims 1000 500 200))
   \<and> 0 < dint (cargo_len (ex_dims 1000 500 200)) \<and> 0 < dint (cargo_width (ex_dims 1000 500 200))
   \<and> 0 < dint (cargo_depth (ex_dims 1000 500 200))
   \<and> round_places (dec_value (cargo_len (ex_dims 1000 500 200))
                    * dec_value (cargo_width (ex_dims 1000 500 200))
                    * dec_value (cargo_depth (ex_dims 1000 500 200))) 2 = 100000
   \<and> cargo_volume (ex_dims 1000 500 200) = Inr \<lparr>dint = 10, dexp = - 2\<rparr>
   \<and> dec_value \<lparr>dint = 10, dexp = - 2\<rparr> = 100000 / 1000000
   \<and> decimal_field 10 1 \<lparr>dint = 9999999999, dexp = - 1\<rparr>
   \<and> 10 ^ 26 \<le> round_places (dec_value (cargo_len (ex_dims 9999999999 9999999999 9999999999))
                    * dec_value (cargo_width (ex_dims 9999999999 9999999999 9999999999))
                    * dec_value (cargo_depth (ex_dims 9999999999 9999999999 9999999999))) 2
   \<and> cargo_volume (ex_dims 9999999999 9999999999 9999999999) = Inl InvalidOperation"
proof -
  let ?o = "ex_dims 1000 500 200" and ?h = "ex_dims 9999999999 9999999999 9999999999"
  have f: "decimal_field 10 1 (cargo_len ?o)" "decimal_field 10 1 (cargo_width ?o)"
    "decimal_field 10 1 (cargo_depth ?o)"
    "0 < dint (cargo_len ?o)" "0 < dint (cargo_width ?o)" "0 < dint (cargo_depth ?o)"
    by (simp_all add: ex_dims_fields decimal_field_def)
  have r: "round_places (dec_value (cargo_len ?o) * dec_value (cargo_width ?o)
                         * dec_value (cargo_depth ?o)) 2 = 100000"
    by (simp add: ex_dims_fields spec_eval)
  then have b: "round_places (dec_value (cargo_len ?o) * dec_value (cargo_width ?o)
                         * dec_value (cargo_depth ?o)) 2 < 10 ^ 26"
    by simp
  have g: "decimal_field 10 1 (cargo_len ?h)" "decimal_field 10 1 (cargo_width ?h)"
    "decimal_field 10 1 (cargo_depth ?h)"
    "0 < dint (cargo_len ?h)" "0 < dint (cargo_width ?h)" "0 < dint (cargo_depth ?h)"
    by (simp_all add: ex_dims_fields decimal_field_def)
  have c: "10 ^ 26 \<le> round_places (dec_value (cargo_len ?h) * dec_value (cargo_width ?h)
                         * dec_value (cargo_depth ?h)) 2"
    by (simp only: round_places_ex_huge) simp
  from cargo_volume_rounds_before_scaling [OF f] b obtain v
    where v: "cargo_volume ?o = Inr v"
      and "dec_value v = round_places (dec_value (cargo_len ?o) * dec_value (cargo_width ?o)
                                       * dec_value (cargo_depth ?o)) 2 / 1000000"
    by blast
  with r have dv: "dec_value v = 100000 / 1000000" by (simp only:)
  from v cargo_volume_ex_100_50_20 have "v = \<lparr>dint = 10, dexp = - 2\<rparr>" by simp
  with dv v have 1: "cargo_volume ?o = Inr \<lparr>dint = 10, dexp = - 2\<rparr>"
    and 2: "dec_value \<lparr>dint = 10, dexp = - 2\<rparr> = 100000 / 1000000" by simp_all
  from cargo_volume_rounds_before_scaling [OF g] c
  have 3: "cargo_volume ?h = Inl InvalidOperation" by blast
  from g(1) have 4: "decimal_field 10 1 \<lparr>dint = 9999999999, dexp = - 1\<rparr>"
    by (simp add: ex_dims_fields)
  from f r 1 2 3 4 c show ?thesis by blast
qed

text \<open>
  C3 as stated fails: for three dimensions of 999999999.9 cm, which the fields hold,
  the rounding raises \<open>InvalidOperation\<close> (the rounded product would need more than 28
  digits), so \<open>cargo_volume\<close> has no value.
\<close>

theorem cargo_volume_overflow_counterexample:
  "decimal_field 10 1 \<lparr>dint = 9999999999, dexp = - 1\<rparr>
   \<and> cargo_len (ex_dims 9999999999 9999999999 9999999999) = \<lparr>dint = 9999999999, dexp = - 1\<rparr>
   \<and> cargo_width (ex_dims 9999999999 9999999999 9999999999) = \<lparr>dint = 9999999999, dexp = - 1\<rparr>
   \<and> cargo_depth (ex_dims 9999999999 9999999999 9999999999) = \<lparr>dint = 9999999999, dexp = - 1\<rparr>
   \<and> cargo_volume (ex_dims 9999999999 9999999999 9999999999) = Inl InvalidOperation"
  by (simp add: decimal_field_def cargo_volume_def ex_dims_fields dec_eval split del: if_split)

text \<open>
  C7 (amended). For every Sending whose \<open>total_volume\<close> is a value of its field (two
  decimal places, at most ten digits) and whose orders, the rows of its own many-to-many
  field \<open>orders\<close>, have cargo volumes as in C3 that sum to less than \<open>10 ^ 20\<close> cubic
  metres, \<open>free_volume\<close> returns \<open>total_volume\<close> minus \<open>round(S, 2)\<close>, where \<open>S\<close> is the sum
  of the cargo volumes of those orders; the result may be negative.
\<close>

theorem free_volume_value:
  assumes "decimal_field 10 2 (total_volume self)"
    and "\<forall>order \<in> set (orders self). cargo_fits order"
    and "sum_list (map spec_cargo_volume (orders self)) < 10 ^ 20"
  shows "\<exists>v. free_volume self = Inr v
             \<and> dec_value v = dec_value (total_volume self)
                 - round_places (sum_list (map spec_cargo_volume (orders self))) 2"
  using free_volume_exact [OF assms] .

text \<open>The witness: a total volume of 10 with orders of 0.1 and 0.2 cubic metres gives
  9.7; with one order of 20 cubic metres the result is -10, and no error.\<close>

theorem free_volume_value_witness:
  "decimal_field 10 2 (total_volume (ex_sending 1 [ex_dims 1000 500 200, ex_dims 1000 500 400]))
   \<and> cargo_fits (ex_dims 1000 500 200) \<and> cargo_fits (ex_dims 1000 500 400)
   \<and> spec_cargo_volume (ex_dims 1000 500 200) = 1 / 10
   \<and> spec_cargo_volume (ex_dims 1000 500 400) = 2 / 10
   \<and> free_volume (ex_sending 1 [ex_dims 1000 500 200, ex_dims 1000 500 400])
       = Inr \<lparr>dint = 970, dexp = - 2\<rparr>
   \<and> dec_value \<lparr>dint = 970, dexp = - 2\<rparr> = 97 / 10
   \<and> round_places (3 / 10) 2 = 3 / 10
   \<and> free_volume (ex_sending 1 [ex_dims 1000 500 40000]) = Inr \<lparr>dint = - 1000, dexp = - 2\<rparr>
   \<and> dec_value \<lparr>dint = - 1000, dexp = - 2\<rparr> = - 10"
proof -
  let ?s = "ex_sending 1 [ex_dims 1000 500 200, ex_dims 1000 500 400]"
  have t: "decimal_field 10 2 (total_volume ?s)"
    by (simp add: ex_sending_def decimal_field_def)
  have o: "\<forall>order \<in> set (orders ?s). cargo_fits order"
    by (simp add: ex_sending_def cargo_fits_ex)
  have s: "sum_list (map spec_cargo_volume (orders ?s)) = 3 / 10"
    by (simp add: ex_sending_def spec_cargo_volume_ex)
  then have b: "sum_list (map spec_cargo_volume (orders ?s)) < 10 ^ 20" by simp
  have tv: "dec_value (total_volume ?s) = 10"
    by (simp add: ex_sending_def dec_value_def)
  from free_volume_value [OF t o b] obtain v where fv: "free_volume ?s = Inr v"
    and dv: "dec_value v = dec_value (total_volume ?s)
                       - round_places (sum_list (map spec_cargo_volume (orders ?s))) 2"
    by blast
  from fv free_volume_ex(1) have "v = \<lparr>dint = 970, dexp = - 2\<rparr>" by simp
  with dv have "dec_value \<lparr>dint = 970, dexp = - 2\<rparr> = 10 - round_places (3 / 10) 2"
    by (simp only: s tv)
  moreover have d1: "dec_value \<lparr>dint = 970, dexp = - 2\<rparr> = 97 / 10"
    and d2: "dec_value \<lparr>dint = - 1000, dexp = - 2\<rparr> = - 10"
    by (simp_all add: dec_value_def)
  ultimately have "round_places (3 / 10) 2 = 3 / 10" by simp
  with t cargo_fits_ex(1,2) spec_cargo_volume_ex(1,2) free_volume_ex(1,2) d1 d2
  show ?thesis by blast
qed

text \<open>
  C7 as stated fails: the sum is not taken over the orders attached through applications.
  In the example store the sending has applications for two orders of 0.1 cubic metres
  each and an empty \<open>orders\<close> field; \<open>free_volume\<close> is the total volume 10, not 9.8.
\<close>

theorem free_volume_applications_counterexample:
  "orders_via_applications ex_db (ex_sending 1 []) = [ex_o 2, ex_o 3]
   \<and> sum_list (map spec_cargo_volume (orders_via_applications ex_db (ex_sending 1 []))) = 2 / 10
   \<and> orders (ex_sending 1 []) = []
   \<and> dec_value (total_volume (ex_sending 1 [])) = 10
   \<and> (\<exists>v. free_volume (ex_sending 1 []) = Inr v \<and> dec_value v = 10
          \<and> dec_value v \<noteq> dec_value (total_volume (ex_sending 1 []))
               - round_places (sum_list (map spec_cargo_volume
                                 (orders_via_applications ex_db (ex_sending 1 [])))) 2)"
proof -
  have via: "orders_via_applications ex_db (ex_sending 1 []) = [ex_o 2, ex_o 3]"
    by (simp add: orders_via_applications_def ex_db_def ex_application_def ex_sending_def)
  have "spec_cargo_volume (ex_o 2) = 1 / 10" and "spec_cargo_volume (ex_o 3) = 1 / 10"
    by (simp_all add: spec_cargo_volume_def ex_o_def ex_order_def spec_eval)
  with via have s: "sum_list (map spec_cargo_volume (orders_via_applications ex_db (ex_sending 1 [])))
                    = 2 / 10" by simp
  have rp: "round_places (2 / 10) 2 = 2 / 10" by (simp add: spec_eval)
  have o: "orders (ex_sending 1 []) = []"
    and t: "total_volume (ex_sending 1 []) = \<lparr>dint = 1000, dexp = - 2\<rparr>"
    by (simp_all add: ex_sending_def)
  have tv: "dec_value \<lparr>dint = 1000, dexp = - 2\<rparr> = 10" by (simp add: dec_value_def)
  have "dec_value \<lparr>dint = 1000, dexp = - 2\<rparr>
          \<noteq> dec_value (total_volume (ex_sending 1 []))
             - round_places (sum_list (map spec_cargo_volume
                               (orders_via_applications ex_db (ex_sending 1 [])))) 2"
    unfolding s rp t tv by simp
  with free_volume_ex(3) tv have "\<exists>v. free_volume (ex_sending 1 []) = Inr v \<and> dec_value v = 10
          \<and> dec_value v \<noteq> dec_value (total_volume (ex_sending 1 []))
               - round_places (sum_list (map spec_cargo_volume
                                 (orders_via_applications ex_db (ex_sending 1 [])))) 2"
    by blast
  with via s o t tv show ?thesis by simp
qed

section \<open>Properties of Application.price\<close>



end
